theory Spec2Isabelle
  imports Complex_Main
begin

section \<open>Tensors, errors and the random source\<close>

text \<open>
  The program is \<^verbatim>\<open>model.py\<close>: the classes \<^verbatim>\<open>CompositionalEmbedding\<close> and \<^verbatim>\<open>Model\<close>.
  Tensors are nested lists of reals, the outermost list being dimension 0; floating point is
  abstracted to the reals. A tensor with a dimension of size zero in front of other dimensions
  loses the sizes behind it, so where the source reads such a size the model takes it from the
  attribute the constructor made it from (\<^verbatim>\<open>embedding_dim\<close> for \<^verbatim>\<open>codebook.size(2)\<close>).
  Every exception the source or the tensor library raises is the \<open>Inl\<close> branch of a sum.
\<close>

type_synonym vec = "real list"
type_synonym mat = "real list list"
type_synonym tensor3 = "real list list list"

datatype error = ZeroDivisionError | ValueError | IndexError | RuntimeError

text \<open>
  The random generator is the stream of the values it will hand out next; a consumer takes a
  prefix and leaves the rest.
\<close>

type_synonym rng = "nat \<Rightarrow> real"

subsection \<open>Tensor operations of the library, as the source uses them\<close>

text \<open>\<^verbatim>\<open>t.index_select(dim=0, index=index)\<close>: every index must address a row of \<open>t\<close>.\<close>

definition index_select :: "'a list \<Rightarrow> int list \<Rightarrow> error + 'a list" where
  "index_select t index =
     (if list_all (\<lambda>i. 0 \<le> i \<and> i < int (length t)) index
      then Inr (map (\<lambda>i. t ! nat i) index)
      else Inl IndexError)"

text \<open>
  \<^verbatim>\<open>F.softmax(code, dim=-2)\<close> on a tensor of shape (tokens, num_codebook, num_codeword):
  dimension -2 is the codebook dimension, so for one token (a num_codebook x num_codeword
  matrix) entry (b, k) is divided by the sum over all codebooks b' of exp of entry (b', k).
\<close>

definition softmax_dim_m2 :: "mat \<Rightarrow> mat" where
  "softmax_dim_m2 m =
     map (\<lambda>row. map (\<lambda>k. exp (row ! k) / sum_list (map (\<lambda>r. exp (r ! k)) m)) [0..<length row]) m"

text \<open>Softmax over the last dimension, as \<^verbatim>\<open>F.gumbel_softmax\<close> applies it.\<close>

definition softmax :: "vec \<Rightarrow> vec" where
  "softmax xs = map (\<lambda>x. exp x / sum_list (map exp xs)) xs"

text \<open>
  \<^verbatim>\<open>t.view(n, -1, d)\<close> on the row-major data \<open>xs\<close> of \<open>t\<close>: the library infers the middle
  dimension as \<open>numel / (n * d)\<close>, and raises when \<open>d\<close> is not a valid size, when \<open>n * d\<close> is
  zero (the inferred size would be ambiguous or the element count wrong) or when \<open>n * d\<close> does
  not divide the element count.
\<close>

definition view3 :: "nat \<Rightarrow> int \<Rightarrow> vec \<Rightarrow> error + tensor3" where
  "view3 n d xs =
     (if d \<le> 0 \<or> n = 0 \<or> length xs mod (n * nat d) \<noteq> 0 then Inl RuntimeError
      else let w = length xs div (n * nat d) in
        Inr (map (\<lambda>i. map (\<lambda>j. take (nat d) (drop ((i * w + j) * nat d) xs)) [0..<w]) [0..<n]))"

text \<open>\<^verbatim>\<open>t.view(n, -1)\<close>, in the same way.\<close>

definition view2 :: "nat \<Rightarrow> vec \<Rightarrow> error + mat" where
  "view2 n xs =
     (if n = 0 \<or> length xs mod n \<noteq> 0 then Inl RuntimeError
      else let w = length xs div n in
        Inr (map (\<lambda>i. take w (drop (i * w) xs)) [0..<n]))"

text \<open>
  \<^verbatim>\<open>torch.sum(torch.stack(ts), dim=0)\<close>: stacking an empty list raises; otherwise the
  tensors, all of one shape, are added element-wise.
\<close>

definition sum_stack3 :: "tensor3 list \<Rightarrow> error + tensor3" where
  "sum_stack3 ts =
     (case ts of
        [] \<Rightarrow> Inl RuntimeError
      | t # _ \<Rightarrow>
          Inr (map (\<lambda>n. map (\<lambda>b. map (\<lambda>k. sum_list (map (\<lambda>s. s ! n ! b ! k) ts))
                 [0..<length (t ! n ! b)]) [0..<length (t ! n)]) [0..<length t]))"

definition sum_stack2 :: "mat list \<Rightarrow> error + mat" where
  "sum_stack2 ts =
     (case ts of
        [] \<Rightarrow> Inl RuntimeError
      | t # _ \<Rightarrow>
          Inr (map (\<lambda>n. map (\<lambda>d. sum_list (map (\<lambda>s. s ! n ! d) ts))
                 [0..<length (t ! n)]) [0..<length t]))"

text \<open>
  \<^verbatim>\<open>v.argmax(dim=-1)\<close> for one vector: the index of the first maximal value; a reduction
  over no elements raises.
\<close>

fun argmax_from :: "nat \<Rightarrow> real \<Rightarrow> nat \<Rightarrow> vec \<Rightarrow> nat" where
  "argmax_from best bv i [] = best"
| "argmax_from best bv i (x # xs) =
     (if bv < x then argmax_from i x (Suc i) xs else argmax_from best bv (Suc i) xs)"

definition argmax :: "vec \<Rightarrow> error + nat" where
  "argmax xs = (case xs of [] \<Rightarrow> Inl RuntimeError | x # rest \<Rightarrow> Inr (argmax_from 0 x 1 rest))"

text \<open>A Python loop that builds a list, stopping at the first exception.\<close>

fun collect :: "('a \<Rightarrow> error + 'b) \<Rightarrow> 'a list \<Rightarrow> error + 'b list" where
  "collect f [] = Inr []"
| "collect f (x # xs) =
     (case f x of
        Inl e \<Rightarrow> Inl e
      | Inr y \<Rightarrow> (case collect f xs of Inl e \<Rightarrow> Inl e | Inr ys \<Rightarrow> Inr (y # ys)))"

text \<open>A computation that draws from the random generator, run over a list in order.\<close>

fun thread :: "('a \<Rightarrow> rng \<Rightarrow> 'b \<times> rng) \<Rightarrow> 'a list \<Rightarrow> rng \<Rightarrow> 'b list \<times> rng" where
  "thread f [] g = ([], g)"
| "thread f (x # xs) g =
     (case f x g of (y, g1) \<Rightarrow> (case thread f xs g1 of (ys, g2) \<Rightarrow> (y # ys, g2)))"

text \<open>
  \<^verbatim>\<open>F.gumbel_softmax(logits)\<close> with its defaults (temperature 1, soft samples, last
  dimension): each logit gets one Gumbel draw from the generator, and the perturbed logits,
  divided by the temperature, go through softmax.
\<close>

definition gumbel_row :: "vec \<Rightarrow> rng \<Rightarrow> vec \<times> rng" where
  "gumbel_row logits g =
     (softmax (map (\<lambda>i. (logits ! i + g i) / 1) [0..<length logits]),
      \<lambda>n. g (n + length logits))"

definition gumbel_softmax :: "tensor3 \<Rightarrow> rng \<Rightarrow> tensor3 \<times> rng" where
  "gumbel_softmax logits g = thread (thread gumbel_row) logits g"

section \<open>CompositionalEmbedding\<close>

record CompositionalEmbedding =
  num_embeddings :: int
  embedding_dim :: int
  num_codebook :: int
  weighted :: bool
  code :: tensor3
  codebook :: tensor3


subsection \<open>Construction\<close>

text \<open>
  \<^verbatim>\<open>torch.Tensor(a, b, c)\<close>: the library refuses a negative size and accepts a size of zero.
\<close>

definition torch_Tensor :: "int \<Rightarrow> int \<Rightarrow> int \<Rightarrow> error + nat \<times> nat \<times> nat" where
  "torch_Tensor a b c =
     (if a < 0 \<or> b < 0 \<or> c < 0 then Inl RuntimeError else Inr (nat a, nat b, nat c))"

text \<open>\<^verbatim>\<open>nn.init.normal_(t)\<close>: the tensor is filled, in row-major order, with draws.\<close>

definition init_normal :: "nat \<times> nat \<times> nat \<Rightarrow> rng \<Rightarrow> tensor3 \<times> rng" where
  "init_normal s z =
     (case s of (a, b, c) \<Rightarrow>
        (map (\<lambda>i. map (\<lambda>j. map (\<lambda>k. z ((i * b + j) * c + k)) [0..<c]) [0..<b]) [0..<a],
         \<lambda>n. z (n + a * b * c)))"

text \<open>
  \<^verbatim>\<open>CompositionalEmbedding.__init__\<close>. The floating-point expression
  \<^verbatim>\<open>math.ceil(math.pow(num_embeddings, 1 / num_codebook))\<close> is the parameter \<open>ceil_pow\<close>,
  consulted only when \<^verbatim>\<open>1 / num_codebook\<close> has not already raised; \<open>z\<close> is the random
  generator that initialises the two parameters.
\<close>

definition CompositionalEmbedding_init ::
  "(int \<Rightarrow> int \<Rightarrow> error + int) \<Rightarrow> rng \<Rightarrow> int \<Rightarrow> int \<Rightarrow> int \<Rightarrow> int option \<Rightarrow> bool
     \<Rightarrow> error + CompositionalEmbedding" where
  "CompositionalEmbedding_init ceil_pow z n_embeddings e_dim n_codebook n_codeword w =
     (case (case n_codeword of
              None \<Rightarrow> if n_codebook = 0 then Inl ZeroDivisionError
                      else ceil_pow n_embeddings n_codebook
            | Some k \<Rightarrow> Inr k) of
        Inl e \<Rightarrow> Inl e
      | Inr k \<Rightarrow>
          (case torch_Tensor n_embeddings n_codebook k of
             Inl e \<Rightarrow> Inl e
           | Inr s1 \<Rightarrow>
               (case torch_Tensor n_codebook k e_dim of
                  Inl e \<Rightarrow> Inl e
                | Inr s2 \<Rightarrow>
                    (case init_normal s1 z of (c, z1) \<Rightarrow>
                       Inr \<lparr>num_embeddings = n_embeddings, embedding_dim = e_dim,
                            num_codebook = n_codebook, weighted = w,
                            code = c, codebook = fst (init_normal s2 z1)\<rparr>))))"

subsection \<open>The forward pass\<close>

text \<open>Line 59: the selected rows of \<^verbatim>\<open>code\<close> after \<^verbatim>\<open>F.softmax(code, dim=-2)\<close>.\<close>

definition reweight :: "tensor3 \<Rightarrow> tensor3" where
  "reweight c = map softmax_dim_m2 c"

text \<open>
  Line 60, \<^verbatim>\<open>(code[:, :, None, :] @ self.codebook[None, :, :, :]).squeeze(dim=-2).sum(dim=1)\<close>:
  for each token and each codebook the row of weights times the codebook's matrix of
  codewords, summed over the codebooks. The product needs the codebook and codeword counts of
  the two operands to agree (the library's broadcasting of a size-one codebook dimension
  against a larger one, which no constructed module can reach, is left out).
\<close>

definition weighted_out :: "CompositionalEmbedding \<Rightarrow> tensor3 \<Rightarrow> error + mat" where
  "weighted_out self c =
     (if list_all (\<lambda>w. list_all2 (\<lambda>wr cbr. length wr = length cbr) w (codebook self)) c
      then Inr (map (\<lambda>w. map (\<lambda>d. sum_list (map (\<lambda>b.
                   sum_list (map (\<lambda>k. w ! b ! k * codebook self ! b ! k ! d) [0..<length (w ! b)]))
                 [0..<length w])) [0..<nat (embedding_dim self)]) c)
      else Inl RuntimeError)"

text \<open>Line 64, the list comprehension: \<open>iteration\<close> samples, each drawing fresh noise.\<close>

fun gumbel_samples :: "nat \<Rightarrow> tensor3 \<Rightarrow> rng \<Rightarrow> tensor3 list \<times> rng" where
  "gumbel_samples 0 c g = ([], g)"
| "gumbel_samples (Suc n) c g =
     (case gumbel_softmax c g of (s, g1) \<Rightarrow>
        (case gumbel_samples n c g1 of (ss, g2) \<Rightarrow> (s # ss, g2)))"

text \<open>Line 64, the rest: \<^verbatim>\<open>torch.sum(torch.stack(samples), dim=0).argmax(dim=-1)\<close>.\<close>

definition select_codewords :: "tensor3 list \<Rightarrow> error + nat list list" where
  "select_codewords samples =
     (case sum_stack3 samples of Inl e \<Rightarrow> Inl e | Inr s \<Rightarrow> collect (collect argmax) s)"

text \<open>
  Line 67, \<^verbatim>\<open>self.codebook[index, :, :].index_select(dim=0, index=code[:, index].view(-1))\<close>.
\<close>

definition gather_codeword :: "tensor3 \<Rightarrow> nat list list \<Rightarrow> nat \<Rightarrow> error + mat" where
  "gather_codeword cb c index =
     (if index < length cb \<and> list_all (\<lambda>r. index < length r) c
      then index_select (cb ! index) (map (\<lambda>r. int (r ! index)) c)
      else Inl IndexError)"

text \<open>Lines 65 to 68: one gathered matrix per codebook, stacked and summed.\<close>

definition unweighted_out :: "CompositionalEmbedding \<Rightarrow> nat list list \<Rightarrow> error + mat" where
  "unweighted_out self c =
     (case collect (gather_codeword (codebook self) c) [0..<nat (num_codebook self)] of
        Inl e \<Rightarrow> Inl e
      | Inr out \<Rightarrow> sum_stack2 out)"

text \<open>
  \<^verbatim>\<open>CompositionalEmbedding.forward(input, iteration=10)\<close>: \<open>None\<close> is the call that leaves
  \<^verbatim>\<open>iteration\<close> to its default. The result comes with the module and the random generator
  as the call leaves them.
\<close>

definition CompositionalEmbedding_forward ::
  "CompositionalEmbedding \<Rightarrow> int list list \<Rightarrow> int option \<Rightarrow> rng
     \<Rightarrow> (error + tensor3) \<times> CompositionalEmbedding \<times> rng" where
  "CompositionalEmbedding_forward self input iteration g =
     (let batch_size = length input;
          index = concat input
      in case index_select (code self) index of
           Inl e \<Rightarrow> (Inl e, self, g)
         | Inr c \<Rightarrow>
             if weighted self then
               (case weighted_out self (reweight c) of
                  Inl e \<Rightarrow> (Inl e, self, g)
                | Inr out \<Rightarrow> (view3 batch_size (embedding_dim self) (concat out), self, g))
             else
               (case gumbel_samples (nat (case iteration of None \<Rightarrow> 10 | Some i \<Rightarrow> i)) c g of
                  (samples, g') \<Rightarrow>
                    (case select_codewords samples of
                       Inl e \<Rightarrow> (Inl e, self, g')
                     | Inr hard \<Rightarrow>
                         (case unweighted_out self hard of
                            Inl e \<Rightarrow> (Inl e, self, g')
                          | Inr out \<Rightarrow>
                              (view3 batch_size (embedding_dim self) (concat out), self, g')))))"


section \<open>Model\<close>

subsection \<open>The modules of the libraries\<close>

text \<open>
  \<^verbatim>\<open>Model\<close> builds its encoder and its classifier from \<^verbatim>\<open>torch.nn\<close> and from the package
  \<^verbatim>\<open>capsule_layer\<close>, whose code is not part of the program. A constructor of a library is a
  function that raises or returns the module; the recurrent encoder and the capsule layer are
  kept as the function their forward pass computes, the lookup table and the linear layer as
  their weight matrix.
\<close>

record CapsuleLinear_args =
  out_capsules :: int
  caps_in_length :: int
  caps_out_length :: int
  in_capsules :: int
  share_weight :: bool
  caps_routing_type :: string
  caps_num_iterations :: int
  bias :: bool

datatype embedding_module =
  Compositional CompositionalEmbedding
| Embedding mat

datatype classifier_module =
  CapsuleLinear CapsuleLinear_args "tensor3 \<Rightarrow> error + tensor3"
| Linear int mat

record library =
  ceil_pow :: "int \<Rightarrow> int \<Rightarrow> error + int"
  draws :: rng
  new_Embedding :: "int \<Rightarrow> int \<Rightarrow> error + mat"
  new_GRU :: "int \<Rightarrow> int \<Rightarrow> error + (tensor3 \<Rightarrow> error + tensor3)"
  new_Linear :: "int \<Rightarrow> int \<Rightarrow> error + mat"
  new_CapsuleLinear :: "CapsuleLinear_args \<Rightarrow> error + (tensor3 \<Rightarrow> error + tensor3)"

record Model =
  in_length :: int
  out_length :: int
  hidden_size :: int
  classifier_type :: string
  embedding :: embedding_module
  features :: "tensor3 \<Rightarrow> error + tensor3"
  classifier :: classifier_module

subsection \<open>Construction\<close>

text \<open>Lines 85 to 92: the embedding is chosen by comparing \<^verbatim>\<open>embedding_type\<close> with two strings.\<close>

definition make_embedding ::
  "library \<Rightarrow> int \<Rightarrow> int \<Rightarrow> int \<Rightarrow> int option \<Rightarrow> string \<Rightarrow> error + embedding_module" where
  "make_embedding lib vocab_size embedding_size n_codebook n_codeword embedding_type =
     (if embedding_type = ''cwc'' then
        (case CompositionalEmbedding_init (ceil_pow lib) (draws lib) vocab_size embedding_size
                n_codebook n_codeword True of
           Inl e \<Rightarrow> Inl e | Inr m \<Rightarrow> Inr (Compositional m))
      else if embedding_type = ''cc'' then
        (case CompositionalEmbedding_init (ceil_pow lib) (draws lib) vocab_size embedding_size
                n_codebook n_codeword False of
           Inl e \<Rightarrow> Inl e | Inr m \<Rightarrow> Inr (Compositional m))
      else
        (case new_Embedding lib vocab_size embedding_size of
           Inl e \<Rightarrow> Inl e | Inr w \<Rightarrow> Inr (Embedding w)))"

text \<open>
  The call \<^verbatim>\<open>CapsuleLinear(out_capsules=num_class, ..., in_capsules=hidden_size // in_length, ...)\<close>
  of lines 96 to 99 and 101 to 104: Python's floor division raises on a zero divisor.
\<close>

definition make_capsule ::
  "library \<Rightarrow> int \<Rightarrow> int \<Rightarrow> int \<Rightarrow> int \<Rightarrow> string \<Rightarrow> int \<Rightarrow> error + classifier_module" where
  "make_capsule lib num_class in_len out_len hidden routing num_iterations =
     (if in_len = 0 then Inl ZeroDivisionError
      else
        (let args = \<lparr>out_capsules = num_class, caps_in_length = in_len,
                     caps_out_length = out_len, in_capsules = hidden div in_len,
                     share_weight = False, caps_routing_type = routing,
                     caps_num_iterations = num_iterations, bias = False\<rparr>
         in case new_CapsuleLinear lib args of
              Inl e \<Rightarrow> Inl e | Inr f \<Rightarrow> Inr (CapsuleLinear args f)))"

text \<open>Lines 95 to 106.\<close>

definition make_classifier ::
  "library \<Rightarrow> int \<Rightarrow> int \<Rightarrow> int \<Rightarrow> int \<Rightarrow> string \<Rightarrow> string \<Rightarrow> int \<Rightarrow> error + classifier_module" where
  "make_classifier lib num_class in_len out_len hidden routing_type c_type num_iterations =
     (if c_type = ''capsule'' \<and> routing_type = ''k_means'' then
        make_capsule lib num_class in_len out_len hidden ''k_means'' num_iterations
      else if c_type = ''capsule'' \<and> routing_type = ''dynamic'' then
        make_capsule lib num_class in_len out_len hidden ''dynamic'' num_iterations
      else
        (case new_Linear lib hidden num_class of
           Inl e \<Rightarrow> Inl e | Inr w \<Rightarrow> Inr (Linear hidden w)))"

text \<open>\<^verbatim>\<open>Model.__init__\<close>: the embedding, then the encoder, then the classifier.\<close>

definition Model_init ::
  "library \<Rightarrow> int \<Rightarrow> int \<Rightarrow> int \<Rightarrow> int option \<Rightarrow> int \<Rightarrow> int \<Rightarrow> int \<Rightarrow> int
     \<Rightarrow> string \<Rightarrow> string \<Rightarrow> string \<Rightarrow> int \<Rightarrow> error + Model" where
  "Model_init lib vocab_size embedding_size n_codebook n_codeword hidden in_len out_len num_class
       routing_type embedding_type c_type num_iterations =
     (case make_embedding lib vocab_size embedding_size n_codebook n_codeword embedding_type of
        Inl e \<Rightarrow> Inl e
      | Inr emb \<Rightarrow>
          (case new_GRU lib embedding_size hidden of
             Inl e \<Rightarrow> Inl e
           | Inr gru \<Rightarrow>
               (case make_classifier lib num_class in_len out_len hidden routing_type c_type
                       num_iterations of
                  Inl e \<Rightarrow> Inl e
                | Inr cls \<Rightarrow>
                    Inr \<lparr>in_length = in_len, out_length = out_len, hidden_size = hidden,
                         classifier_type = c_type, embedding = emb, features = gru,
                         classifier = cls\<rparr>)))"

subsection \<open>The forward pass\<close>

text \<open>
  Line 109, \<^verbatim>\<open>self.embedding(x)\<close>: the compositional embedding with its default iteration
  count, or the lookup table, which raises on an index outside the table.
\<close>

fun embedding_forward ::
  "embedding_module \<Rightarrow> int list list \<Rightarrow> rng \<Rightarrow> (error + tensor3) \<times> embedding_module \<times> rng" where
  "embedding_forward (Compositional m) x g =
     (case CompositionalEmbedding_forward m x None g of (r, m', g') \<Rightarrow> (r, Compositional m', g'))"
| "embedding_forward (Embedding w) x g = (collect (index_select w) x, Embedding w, g)"

text \<open>Python's slices \<^verbatim>\<open>v[:h]\<close> and \<^verbatim>\<open>v[h:]\<close>; a negative bound counts from the end.\<close>

definition slice_to :: "int \<Rightarrow> 'a list \<Rightarrow> 'a list" where
  "slice_to h v = (if 0 \<le> h then take (nat h) v else take (length v - nat (- h)) v)"

definition slice_from :: "int \<Rightarrow> 'a list \<Rightarrow> 'a list" where
  "slice_from h v = (if 0 \<le> h then drop (nat h) v else drop (length v - nat (- h)) v)"

text \<open>
  Element-wise addition along the last dimension: the sizes must agree, or one of them is 1
  and that operand is broadcast.
\<close>

definition add_broadcast :: "vec \<Rightarrow> vec \<Rightarrow> error + vec" where
  "add_broadcast xs ys =
     (if length xs = length ys then Inr (map (\<lambda>i. xs ! i + ys ! i) [0..<length xs])
      else if length xs = 1 then Inr (map (\<lambda>y. xs ! 0 + y) ys)
      else if length ys = 1 then Inr (map (\<lambda>x. x + ys ! 0) xs)
      else Inl RuntimeError)"

text \<open>Line 112, \<^verbatim>\<open>out[:, :, :self.hidden_size] + out[:, :, self.hidden_size:]\<close>.\<close>

definition fold_directions :: "int \<Rightarrow> tensor3 \<Rightarrow> error + tensor3" where
  "fold_directions h out =
     collect (collect (\<lambda>v. add_broadcast (slice_to h v) (slice_from h v))) out"

text \<open>
  Line 113, \<^verbatim>\<open>out.mean(dim=1)\<close>: for each example the mean over the time steps. For a
  sequence with no time step the library returns not-a-number in every position, which no
  real number stands for; the model returns the empty row there.
\<close>

definition mean_dim1 :: "tensor3 \<Rightarrow> mat" where
  "mean_dim1 out =
     map (\<lambda>rows. case rows of
                   [] \<Rightarrow> []
                 | r # _ \<Rightarrow> map (\<lambda>j. sum_list (map (\<lambda>row. row ! j) rows) / real (length rows))
                              [0..<length r]) out"

text \<open>\<^verbatim>\<open>v.norm(dim=-1)\<close> of one vector: the Euclidean norm.\<close>

definition norm_last :: "vec \<Rightarrow> real" where
  "norm_last v = sqrt (sum_list (map (\<lambda>x. x ^ 2) v))"

text \<open>
  A linear layer without bias on one vector: the vector must have \<^verbatim>\<open>in_features\<close> entries.
\<close>

definition linear_forward :: "int \<Rightarrow> mat \<Rightarrow> vec \<Rightarrow> error + vec" where
  "linear_forward in_features w v =
     (if int (length v) = in_features
      then Inr (map (\<lambda>row. sum_list (map (\<lambda>j. v ! j * row ! j) [0..<length v])) w)
      else Inl RuntimeError)"

text \<open>
  \<^verbatim>\<open>self.classifier(out)\<close> on a rank-3 tensor (line 116) and on a rank-2 tensor (line 120).
  The capsule layer takes rank-3 input only; \<^verbatim>\<open>__init__\<close> builds it only under the classifier
  type that sends the forward pass through line 116.
\<close>

fun classifier_forward3 :: "classifier_module \<Rightarrow> tensor3 \<Rightarrow> error + tensor3" where
  "classifier_forward3 (CapsuleLinear a f) x = f x"
| "classifier_forward3 (Linear n w) x = collect (collect (linear_forward n w)) x"

fun classifier_forward2 :: "classifier_module \<Rightarrow> mat \<Rightarrow> error + mat" where
  "classifier_forward2 (CapsuleLinear a f) x = Inl ValueError"
| "classifier_forward2 (Linear n w) x = collect (linear_forward n w) x"

text \<open>Lines 112 and 113: the pooled representation.\<close>

definition pool :: "Model \<Rightarrow> tensor3 \<Rightarrow> error + mat" where
  "pool self out =
     (case fold_directions (hidden_size self) out of
        Inl e \<Rightarrow> Inl e
      | Inr folded \<Rightarrow> Inr (mean_dim1 folded))"

text \<open>Lines 114 to 120: the branch is taken on \<^verbatim>\<open>self.classifier_type\<close> alone.\<close>

definition classify :: "Model \<Rightarrow> mat \<Rightarrow> error + mat" where
  "classify self out =
     (if classifier_type self = ''capsule'' then
        (case view3 (length out) (in_length self) (concat out) of
           Inl e \<Rightarrow> Inl e
         | Inr caps \<Rightarrow>
             (case classifier_forward3 (classifier self) caps of
                Inl e \<Rightarrow> Inl e
              | Inr poses \<Rightarrow> Inr (map (map norm_last) poses)))
      else
        (case view2 (length out) (concat out) of
           Inl e \<Rightarrow> Inl e
         | Inr flat \<Rightarrow> classifier_forward2 (classifier self) flat))"

text \<open>
  \<^verbatim>\<open>Model.forward\<close>. The result comes with the model and the random generator as the call
  leaves them.
\<close>

definition Model_forward ::
  "Model \<Rightarrow> int list list \<Rightarrow> rng \<Rightarrow> (error + mat) \<times> Model \<times> rng" where
  "Model_forward self x g =
     (case embedding_forward (embedding self) x g of
        (r, emb, g') \<Rightarrow>
          ((case r of
              Inl e \<Rightarrow> Inl e
            | Inr embedded \<Rightarrow>
                (case features self embedded of
                   Inl e \<Rightarrow> Inl e
                 | Inr out \<Rightarrow>
                     (case pool self out of
                        Inl e \<Rightarrow> Inl e
                      | Inr pooled \<Rightarrow> classify self pooled))),
           self\<lparr>embedding := emb\<rparr>, g'))"


section \<open>Shapes and the words of the specification\<close>

text \<open>A tensor of shape (a, b) or (a, b, c).\<close>

definition shape2 :: "nat \<Rightarrow> nat \<Rightarrow> 'a list list \<Rightarrow> bool" where
  "shape2 a b m = (length m = a \<and> list_all (\<lambda>v. length v = b) m)"

definition shape3 :: "nat \<Rightarrow> nat \<Rightarrow> nat \<Rightarrow> 'a list list list \<Rightarrow> bool" where
  "shape3 a b c t = (length t = a \<and> list_all (shape2 b c) t)"

text \<open>
  A module as \<^verbatim>\<open>CompositionalEmbedding.__init__\<close> leaves it and as training keeps it:
  \<^verbatim>\<open>code\<close> of shape (num_embeddings, num_codebook, num_codeword) and \<^verbatim>\<open>codebook\<close> of shape
  (num_codebook, num_codeword, embedding_dim).
\<close>

definition well_formed :: "CompositionalEmbedding \<Rightarrow> nat \<Rightarrow> nat \<Rightarrow> nat \<Rightarrow> nat \<Rightarrow> bool" where
  "well_formed self V B K D =
     (num_embeddings self = int V \<and> num_codebook self = int B \<and> embedding_dim self = int D \<and>
      shape3 V B K (code self) \<and> shape3 B K D (codebook self))"

text \<open>A batch of token ids, each in the range from 0 up to the vocabulary size.\<close>

definition token_ids :: "nat \<Rightarrow> int list list \<Rightarrow> bool" where
  "token_ids V input = list_all (list_all (\<lambda>i. 0 \<le> i \<and> i < int V)) input"

text \<open>
  The unweighted mode in the words of the specification, written without the operations of
  the source. A relaxed-categorical (Gumbel-softmax) sample of a vector of logits at
  temperature 1: every logit is perturbed by its own noise, and the result is normalised by
  the sum of the exponentials.
\<close>

definition relaxed_categorical :: "vec \<Rightarrow> (nat \<Rightarrow> real) \<Rightarrow> vec" where
  "relaxed_categorical logits noise =
     map (\<lambda>k. exp (logits ! k + noise k) /
              sum_list (map (\<lambda>j. exp (logits ! j + noise j)) [0..<length logits]))
       [0..<length logits]"

text \<open>
  Every sample has noise of its own: the generator's values are handed out in order, sample
  after sample, and within a sample token after token, codebook after codebook and codeword
  after codeword. This is the noise of codeword \<open>k\<close> of codebook \<open>b\<close> of token \<open>t\<close> in sample
  \<open>j\<close>, for \<open>T\<close> tokens, \<open>B\<close> codebooks and \<open>K\<close> codewords.
\<close>

definition sample_noise :: "rng \<Rightarrow> nat \<Rightarrow> nat \<Rightarrow> nat \<Rightarrow> nat \<Rightarrow> nat \<Rightarrow> nat \<Rightarrow> nat \<Rightarrow> real" where
  "sample_noise g T B K j t b k = g (((j * T + t) * B + b) * K + k)"

text \<open>The average of \<open>n\<close> samples of the logits of token \<open>t\<close> and codebook \<open>b\<close>.\<close>

definition averaged_sample :: "rng \<Rightarrow> tensor3 \<Rightarrow> nat \<Rightarrow> nat \<Rightarrow> nat \<Rightarrow> vec" where
  "averaged_sample g c n t b =
     map (\<lambda>k. sum_list (map (\<lambda>j. relaxed_categorical (c ! t ! b)
                                   (sample_noise g (length c) (length (c ! t)) (length (c ! t ! b)) j t b) ! k)
                          [0..<n]) / real n)
       [0..<length (c ! t ! b)]"

text \<open>
  An index of a vector is its first maximum when no entry is larger and every entry before
  it is smaller; the arg-max is the first index that no entry exceeds.
\<close>

definition first_maximum :: "vec \<Rightarrow> nat \<Rightarrow> bool" where
  "first_maximum v i =
     (i < length v \<and> list_all (\<lambda>x. x \<le> v ! i) v \<and> list_all (\<lambda>x. x < v ! i) (take i v))"

definition first_argmax :: "vec \<Rightarrow> nat" where
  "first_argmax v = hd (filter (\<lambda>i. list_all (\<lambda>x. x \<le> v ! i) v) [0..<length v])"

text \<open>The hard index of token \<open>t\<close> and codebook \<open>b\<close>: the arg-max of the averaged samples.\<close>

definition hard_index_spec :: "rng \<Rightarrow> tensor3 \<Rightarrow> nat \<Rightarrow> nat \<Rightarrow> nat \<Rightarrow> nat" where
  "hard_index_spec g c n t b = first_argmax (averaged_sample g c n t b)"

text \<open>
  The embedding of a batch with \<open>W\<close> tokens in a sequence, from \<open>n\<close> samples: for each token
  the sum over the codebooks of the codeword at the hard index.
\<close>

definition unweighted_spec ::
  "CompositionalEmbedding \<Rightarrow> int list list \<Rightarrow> nat \<Rightarrow> nat \<Rightarrow> rng \<Rightarrow> tensor3" where
  "unweighted_spec self input W n g =
     (let c = map (\<lambda>i. code self ! nat i) (concat input) in
      map (\<lambda>i. map (\<lambda>w. map (\<lambda>d.
             sum_list (map (\<lambda>b. codebook self ! b ! hard_index_spec g c n (i * W + w) b ! d)
                         [0..<nat (num_codebook self)]))
           [0..<nat (embedding_dim self)]) [0..<W]) [0..<length input])"

section \<open>Sample modules and inputs\<close>

text \<open>A random generator that hands out zero every time.\<close>

definition zero_rng :: rng where
  "zero_rng = (\<lambda>n. 0)"

text \<open>A random generator that hands out one every time.\<close>

definition unit_rng :: rng where
  "unit_rng = (\<lambda>n. 1)"

text \<open>
  One token, two codebooks of three codewords, every logit zero and every codeword the
  one-dimensional vector 1.
\<close>

definition two_books :: CompositionalEmbedding where
  "two_books =
     \<lparr>num_embeddings = 1, embedding_dim = 1, num_codebook = 2, weighted = True,
      code = [[[0, 0, 0], [0, 0, 0]]],
      codebook = [[[1], [1], [1]], [[1], [1], [1]]]\<rparr>"

text \<open>The same parameters in unweighted mode.\<close>

definition two_books_hard :: CompositionalEmbedding where
  "two_books_hard = two_books\<lparr>weighted := False\<rparr>"

text \<open>
  One token and one codebook of two codewords, 10 and 20, with equal logits, in unweighted
  mode; and a random generator whose noise favours the second codeword.
\<close>

definition two_words :: CompositionalEmbedding where
  "two_words =
     \<lparr>num_embeddings = 1, embedding_dim = 1, num_codebook = 1, weighted = False,
      code = [[[0, 0]]], codebook = [[[10], [20]]]\<rparr>"

definition tilted_rng :: rng where
  "tilted_rng = (\<lambda>n. if odd n then 1 else 0)"

text \<open>
  Modelled from the spec: the capsule layer of the package \<^verbatim>\<open>capsule_layer\<close>, whose code is
  not among the sources. Of its contract only this is kept: construction fails when
  \<^verbatim>\<open>num_iterations\<close> is not positive; the forward pass takes (batch, in_capsules, in_length)
  and returns (batch, out_capsules, out_length), and an input of another shape is refused.
  The routing itself is not modelled: every output entry is the sum of the example's input.
\<close>

definition sample_capsule :: "CapsuleLinear_args \<Rightarrow> error + (tensor3 \<Rightarrow> error + tensor3)" where
  "sample_capsule a =
     (if caps_num_iterations a \<le> 0 then Inl ValueError
      else Inr (\<lambda>x.
        if list_all (\<lambda>caps. int (length caps) = in_capsules a \<and>
                            list_all (\<lambda>v. int (length v) = caps_in_length a) caps) x
        then Inr (map (\<lambda>caps. replicate (nat (out_capsules a))
                                (replicate (nat (caps_out_length a)) (sum_list (concat caps)))) x)
        else Inl RuntimeError))"

text \<open>
  A stand-in for the constructor of the recurrent encoder: it refuses a negative size, and
  its forward pass returns a tensor of the shape a two-direction encoder returns,
  (batch, time, 2 * hidden_size), every entry the sum of the time step's input.
\<close>

definition sample_gru :: "int \<Rightarrow> int \<Rightarrow> error + (tensor3 \<Rightarrow> error + tensor3)" where
  "sample_gru input_size hidden =
     (if input_size < 0 \<or> hidden < 0 then Inl RuntimeError
      else Inr (\<lambda>x. Inr (map (map (\<lambda>v. replicate (2 * nat hidden) (sum_list v))) x)))"

text \<open>
  A stand-in for the constructors that allocate one weight matrix: a negative size is
  refused, and every weight is 1.
\<close>

definition sample_matrix :: "int \<Rightarrow> int \<Rightarrow> error + mat" where
  "sample_matrix a b =
     (if a < 0 \<or> b < 0 then Inl RuntimeError else Inr (replicate (nat a) (replicate (nat b) 1)))"

text \<open>
  A library to run the constructors on concrete arguments; the theorems below hold for every
  library.
\<close>

definition sample_library :: library where
  "sample_library =
     \<lparr>ceil_pow = (\<lambda>n b. Inr 2), draws = unit_rng,
      new_Embedding = sample_matrix,
      new_GRU = sample_gru,
      new_Linear = (\<lambda>in_features out_features. sample_matrix out_features in_features),
      new_CapsuleLinear = sample_capsule\<rparr>"

text \<open>
  Two models built from the sample library, for a vocabulary of 3 tokens, embeddings of
  size 2, 4 hidden units, capsules of length 2 and 2 classes: a weighted compositional
  embedding with a capsule classifier, and a lookup table with a linear classifier.
\<close>

definition capsule_model :: Model where
  "capsule_model =
     projr (Model_init sample_library 3 2 2 (Some 2) 4 2 2 2 ''dynamic'' ''cwc'' ''capsule'' 3)"

definition linear_model :: Model where
  "linear_model =
     projr (Model_init sample_library 3 2 2 (Some 2) 4 2 2 2 ''k_means'' ''plain'' ''linear'' 3)"

text \<open>The capsule layer of \<open>capsule_model\<close>, and a batch of one sequence of two tokens.\<close>

definition sample_args :: CapsuleLinear_args where
  "sample_args =
     \<lparr>out_capsules = 2, caps_in_length = 2, caps_out_length = 2, in_capsules = 2,
      share_weight = False, caps_routing_type = ''dynamic'', caps_num_iterations = 3,
      bias = False\<rparr>"

definition sample_route :: "tensor3 \<Rightarrow> error + tensor3" where
  "sample_route = projr (sample_capsule sample_args)"

definition sample_batch :: "int list list" where
  "sample_batch = [[0, 1]]"

section \<open>Auxiliary facts\<close>

lemma sum_list_map_divide:
  "sum_list (map (\<lambda>x. f x / (c::real)) xs) = sum_list (map f xs) / c"
  by (induction xs) (simp_all add: add_divide_distrib)

lemma sum_list_exp_pos:
  "m \<noteq> [] \<Longrightarrow> 0 < sum_list (map (\<lambda>r. exp (f r :: real)) m)"
  by (induction m) (auto intro!: add_pos_nonneg sum_list_nonneg)

text \<open>
  What line 59 does normalise: for one token and one codeword position, the weights of the
  codebooks add up to 1.
\<close>

lemma softmax_dim_m2_sums_over_codebooks:
  assumes "shape2 B K m" "0 < B" "k < K"
  shows "sum_list (map (\<lambda>row. row ! k) (softmax_dim_m2 m)) = 1"
proof -
  have len: "\<And>row. row \<in> set m \<Longrightarrow> k < length row"
    using assms by (auto simp: shape2_def list_all_iff)
  have ne: "m \<noteq> []" using assms by (auto simp: shape2_def)
  let ?S = "sum_list (map (\<lambda>r. exp (r ! k)) m)"
  have "map (\<lambda>row. row ! k) (softmax_dim_m2 m) = map (\<lambda>row. exp (row ! k) / ?S) m"
    using len by (simp add: softmax_dim_m2_def)
  then have "sum_list (map (\<lambda>row. row ! k) (softmax_dim_m2 m)) = ?S / ?S"
    by (simp add: sum_list_map_divide)
  moreover have "0 < ?S" using ne by (rule sum_list_exp_pos)
  ultimately show ?thesis by simp
qed

subsection \<open>Evaluation on concrete inputs\<close>

lemma replicate_numeral: "replicate (numeral k) x = x # replicate (pred_numeral k) x"
  by (simp add: numeral_eq_Suc)

lemmas build_defs = Model_init_def make_embedding_def make_classifier_def make_capsule_def
  CompositionalEmbedding_init_def torch_Tensor_def init_normal_def sample_library_def
  sample_gru_def sample_capsule_def sample_matrix_def zero_rng_def unit_rng_def Let_def

lemmas run_defs = Model_forward_def pool_def fold_directions_def slice_to_def slice_from_def
  add_broadcast_def mean_dim1_def classify_def view3_def view2_def norm_last_def
  linear_forward_def index_select_def CompositionalEmbedding_forward_def reweight_def
  softmax_dim_m2_def weighted_out_def replicate_numeral upt_conv_Cons

lemmas sample_defs = gumbel_softmax_def gumbel_row_def softmax_def select_codewords_def
  sum_stack3_def argmax_def unweighted_out_def gather_codeword_def sum_stack2_def

subsection \<open>Shapes, loops and reshaping\<close>

lemma collect_map:
  "(\<And>x. x \<in> set xs \<Longrightarrow> f x = Inr (h x)) \<Longrightarrow> collect f xs = Inr (map h xs)"
  by (induction xs) simp_all

lemma shape2_length: "shape2 a b m \<Longrightarrow> length m = a"
  by (simp add: shape2_def)

lemma shape2_row: "shape2 a b m \<Longrightarrow> v \<in> set m \<Longrightarrow> length v = b"
  by (simp add: shape2_def list_all_iff)

lemma shape2_nth: "shape2 a b m \<Longrightarrow> i < a \<Longrightarrow> length (m ! i) = b"
  by (simp add: shape2_def list_all_length)

lemma shape3_length: "shape3 a b c t \<Longrightarrow> length t = a"
  by (simp add: shape3_def)

lemma shape3_row: "shape3 a b c t \<Longrightarrow> m \<in> set t \<Longrightarrow> shape2 b c m"
  by (simp add: shape3_def list_all_iff)

lemma shape3_nth: "shape3 a b c t \<Longrightarrow> i < a \<Longrightarrow> shape2 b c (t ! i)"
  by (simp add: shape3_def list_all_length)

lemma shape2_map: "(\<And>x. x \<in> set xs \<Longrightarrow> length (f x) = b) \<Longrightarrow> shape2 (length xs) b (map f xs)"
  by (simp add: shape2_def list_all_iff)

lemma shape3_map: "(\<And>x. x \<in> set xs \<Longrightarrow> shape2 b c (f x)) \<Longrightarrow> shape3 (length xs) b c (map f xs)"
  by (simp add: shape3_def list_all_iff)

lemma fold_directions_halves:
  assumes "shape3 N W (2 * h) out"
  shows "fold_directions (int h) out =
           Inr (map (map (\<lambda>v. map (\<lambda>i. v ! i + v ! (h + i)) [0..<h])) out)"
proof -
  have vec: "add_broadcast (slice_to (int h) v) (slice_from (int h) v) =
               Inr (map (\<lambda>i. v ! i + v ! (h + i)) [0..<h])"
    if "length v = 2 * h" for v :: vec
    using that by (simp add: add_broadcast_def slice_to_def slice_from_def)
  have row: "collect (\<lambda>v. add_broadcast (slice_to (int h) v) (slice_from (int h) v)) m =
               Inr (map (\<lambda>v. map (\<lambda>i. v ! i + v ! (h + i)) [0..<h]) m)"
    if "m \<in> set out" for m
    using shape3_row [OF assms that] by (intro collect_map vec) (rule shape2_row)
  show ?thesis
    unfolding fold_directions_def by (intro collect_map row)
qed

lemma mean_dim1_rows:
  assumes "shape3 N W h t" "0 < W"
  shows "mean_dim1 t =
           map (\<lambda>rows. map (\<lambda>j. sum_list (map (\<lambda>row. row ! j) rows) / real W) [0..<h]) t"
proof -
  have "(case rows of [] \<Rightarrow> []
          | r # _ \<Rightarrow> map (\<lambda>j. sum_list (map (\<lambda>row. row ! j) rows) / real (length rows)) [0..<length r])
        = map (\<lambda>j. sum_list (map (\<lambda>row. row ! j) rows) / real W) [0..<h]"
    if "rows \<in> set t" for rows
  proof -
    have s: "shape2 W h rows" using assms(1) that by (rule shape3_row)
    then obtain r rs where rows: "rows = r # rs"
      using assms(2) by (cases rows) (auto simp: shape2_def)
    have "length r = h" using s rows by (simp add: shape2_def)
    moreover have "length rows = W" using s by (simp add: shape2_def)
    ultimately show ?thesis using rows by simp
  qed
  then show ?thesis by (simp add: mean_dim1_def)
qed

lemma pool_value:
  assumes "shape3 N W (2 * h) out" "0 < W" "hidden_size self = int h"
  shows "pool self out =
           Inr (map (\<lambda>rows. map (\<lambda>j. sum_list (map (\<lambda>v. v ! j + v ! (h + j)) rows) / real W)
                  [0..<h]) out)"
proof -
  let ?folded = "map (map (\<lambda>v. map (\<lambda>i. v ! i + v ! (h + i)) [0..<h])) out"
  have f: "fold_directions (hidden_size self) out = Inr ?folded"
    using fold_directions_halves [OF assms(1)] assms(3) by simp
  have sh: "shape3 N W h ?folded"
  proof -
    have "shape3 (length out) W h ?folded"
    proof (rule shape3_map)
      fix m assume "m \<in> set out"
      then have "shape2 W (2 * h) m" using assms(1) by (rule shape3_row [rotated])
      then have "length m = W" by (rule shape2_length)
      moreover have "shape2 (length m) h (map (\<lambda>v. map (\<lambda>i. v ! i + v ! (h + i)) [0..<h]) m)"
        by (rule shape2_map) simp
      ultimately show "shape2 W h (map (\<lambda>v. map (\<lambda>i. v ! i + v ! (h + i)) [0..<h]) m)" by simp
    qed
    then show ?thesis using shape3_length [OF assms(1)] by simp
  qed
  have "mean_dim1 ?folded =
          map (\<lambda>rows. map (\<lambda>j. sum_list (map (\<lambda>row. row ! j) rows) / real W) [0..<h]) ?folded"
    using sh assms(2) by (rule mean_dim1_rows)
  also have "\<dots> = map (\<lambda>rows. map (\<lambda>j. sum_list (map (\<lambda>v. v ! j + v ! (h + j)) rows) / real W)
                  [0..<h]) out"
    by (simp add: comp_def cong: map_cong)
  finally show ?thesis using f by (simp add: pool_def)
qed

lemma map_by_index: "map f xs = map (\<lambda>i. f (xs ! i)) [0..<length xs]"
proof -
  have "map (\<lambda>i. f (xs ! i)) [0..<length xs] = map f (map ((!) xs) [0..<length xs])"
    by (simp add: comp_def)
  also have "\<dots> = map f xs" by (simp only: map_nth)
  finally show ?thesis by simp
qed

lemma length_concat_shape2: "shape2 a b m \<Longrightarrow> length (concat m) = a * b"
proof (induction m arbitrary: a)
  case Nil
  then show ?case by (simp add: shape2_def)
next
  case (Cons v m)
  then have "shape2 (a - 1) b m" "length v = b" "a = Suc (a - 1)"
    by (auto simp: shape2_def)
  with Cons.IH [of "a - 1"] show ?case
    by (metis concat.simps(2) length_append mult_Suc)
qed

lemma take_drop_concat:
  "shape2 a b m \<Longrightarrow> t < a \<Longrightarrow> take b (drop (t * b) (concat m)) = m ! t"
proof (induction m arbitrary: a t)
  case Nil
  then show ?case by (simp add: shape2_def)
next
  case (Cons v m)
  then have tl: "shape2 (a - 1) b m" and v: "length v = b"
    by (auto simp: shape2_def)
  show ?case
  proof (cases t)
    case 0
    then show ?thesis using v by simp
  next
    case (Suc t')
    then have "t' < a - 1" using Cons.prems by simp
    then have "take b (drop (t' * b) (concat m)) = m ! t'"
      using Cons.IH [OF tl] by simp
    then show ?thesis using Suc v by simp
  qed
qed

lemma index_bound: "i < N \<Longrightarrow> j < M \<Longrightarrow> i * M + j < N * (M::nat)"
proof -
  assume a: "i < N" "j < M"
  have "i * M + j < i * M + M" using a by simp
  also have "\<dots> = Suc i * M" by simp
  also have "\<dots> \<le> N * M" using a by (intro mult_le_mono1) simp
  finally show ?thesis .
qed

lemma view3_value:
  assumes len: "length xs = N * M * D" and N: "0 < N" and D: "0 < D"
  shows "view3 N (int D) xs =
           Inr (map (\<lambda>i. map (\<lambda>j. take D (drop ((i * M + j) * D) xs)) [0..<M]) [0..<N])"
proof -
  have "N * M * D = M * (N * D)" by (simp add: mult_ac)
  then have "length xs mod (N * D) = 0" "length xs div (N * D) = M"
    using len N D by simp_all
  then show ?thesis using N D by (simp add: view3_def)
qed

lemma view3_shape:
  assumes len: "length xs = N * M * D" and N: "0 < N" and D: "0 < D"
  shows "\<exists>t. view3 N (int D) xs = Inr t \<and> shape3 N M D t"
proof -
  let ?t = "map (\<lambda>i. map (\<lambda>j. take D (drop ((i * M + j) * D) xs)) [0..<M]) [0..<N]"
  have "length (take D (drop ((i * M + j) * D) xs)) = D" if "i < N" "j < M" for i j
  proof -
    have "Suc (i * M + j) \<le> N * M" using index_bound [OF that] by simp
    then have "Suc (i * M + j) * D \<le> N * M * D" by (rule mult_le_mono1)
    then show ?thesis using len by simp
  qed
  then have "shape3 N M D ?t"
    by (simp add: shape3_def shape2_def list_all_iff)
  then show ?thesis using view3_value [OF assms] by simp
qed

lemma view3_concat:
  assumes sh: "shape2 (N * M) D m" and N: "0 < N" and D: "0 < D"
  shows "view3 N (int D) (concat m) = Inr (map (\<lambda>i. map (\<lambda>j. m ! (i * M + j)) [0..<M]) [0..<N])"
proof -
  have "length (concat m) = N * M * D" using sh by (rule length_concat_shape2)
  then have "view3 N (int D) (concat m) =
      Inr (map (\<lambda>i. map (\<lambda>j. take D (drop ((i * M + j) * D) (concat m))) [0..<M]) [0..<N])"
    using N D by (rule view3_value)
  moreover have "take D (drop ((i * M + j) * D) (concat m)) = m ! (i * M + j)"
    if "i < N" "j < M" for i j
    using sh index_bound [OF that] by (rule take_drop_concat)
  ultimately show ?thesis by simp
qed

lemma view3_not_divisible:
  assumes sh: "shape2 N H m" and N: "0 < N" and nd: "\<not> L dvd int H"
  shows "view3 N L (concat m) = Inl RuntimeError"
proof (cases "L \<le> 0")
  case True
  then show ?thesis by (simp add: view3_def)
next
  case False
  then have L: "int (nat L) = L" by simp
  have "\<not> nat L dvd H" using nd L by (metis int_dvd_int_iff)
  then have "H mod nat L \<noteq> 0" by (simp add: dvd_eq_mod_eq_0)
  then have "N * H mod (N * nat L) \<noteq> 0" using N by simp
  moreover have "length (concat m) = N * H" using sh by (rule length_concat_shape2)
  ultimately show ?thesis by (simp add: view3_def)
qed

lemma view2_concat:
  assumes sh: "shape2 N H m" and N: "0 < N"
  shows "view2 N (concat m) = Inr m"
proof -
  have len: "length (concat m) = N * H" using sh by (rule length_concat_shape2)
  have "take H (drop (i * H) (concat m)) = m ! i" if "i < N" for i
    using sh that by (rule take_drop_concat)
  then have "map (\<lambda>i. take H (drop (i * H) (concat m))) [0..<N] = map (\<lambda>i. m ! i) [0..<N]"
    by simp
  also have "\<dots> = m" using shape2_length [OF sh] by (metis map_nth)
  finally show ?thesis using len N by (simp add: view2_def)
qed

subsection \<open>What the constructor of the embedding establishes\<close>

lemma init_normal_shape: "shape3 a b c (fst (init_normal (a, b, c) z))"
  by (simp add: init_normal_def shape3_def shape2_def list_all_iff)

lemma constructed_is_well_formed:
  assumes "CompositionalEmbedding_init cp z V D B (Some K) w = Inr self"
  shows "well_formed self (nat V) (nat B) (nat K) (nat D) \<and> weighted self = w"
proof -
  have nn: "0 \<le> V" "0 \<le> B" "0 \<le> K" "0 \<le> D"
    using assms
    by (auto simp: CompositionalEmbedding_init_def torch_Tensor_def split: if_splits)
  then have self: "self = \<lparr>num_embeddings = V, embedding_dim = D, num_codebook = B, weighted = w,
      code = fst (init_normal (nat V, nat B, nat K) z),
      codebook = fst (init_normal (nat B, nat K, nat D) (snd (init_normal (nat V, nat B, nat K) z)))\<rparr>"
    using assms
    by (auto simp: CompositionalEmbedding_init_def torch_Tensor_def split: prod.splits)
  show ?thesis
    using nn by (simp add: self well_formed_def init_normal_shape)
qed

subsection \<open>The stages of the embedding's forward pass\<close>

lemma index_select_tokens:
  assumes "token_ids V input" "length t = V"
  shows "index_select t (concat input) = Inr (map (\<lambda>i. t ! nat i) (concat input))"
    and "\<And>i. i \<in> set (concat input) \<Longrightarrow> nat i < V"
proof -
  have r: "0 \<le> i \<and> i < int V" if "i \<in> set (concat input)" for i
    using assms(1) that by (auto simp: token_ids_def list_all_iff)
  then show "index_select t (concat input) = Inr (map (\<lambda>i. t ! nat i) (concat input))"
    using assms(2) by (simp add: index_select_def list_all_iff)
  show "\<And>i. i \<in> set (concat input) \<Longrightarrow> nat i < V" using r by fastforce
qed

lemma selected_shape:
  assumes "token_ids V input" "shape3 V B K t" "shape2 N W input"
  shows "shape3 (N * W) B K (map (\<lambda>i. t ! nat i) (concat input))"
proof -
  have len: "length t = V" using assms(2) by (rule shape3_length)
  have "shape2 B K (t ! nat i)" if "i \<in> set (concat input)" for i
    using assms(2) index_select_tokens(2) [OF assms(1) len that] by (rule shape3_nth)
  then have "shape3 (length (concat input)) B K (map (\<lambda>i. t ! nat i) (concat input))"
    by (rule shape3_map)
  then show ?thesis using length_concat_shape2 [OF assms(3)] by simp
qed

lemma softmax_dim_m2_shape: "shape2 B K m \<Longrightarrow> shape2 B K (softmax_dim_m2 m)"
  by (simp add: shape2_def softmax_dim_m2_def list_all_iff)

lemma reweight_shape: "shape3 A B K c \<Longrightarrow> shape3 A B K (reweight c)"
  by (simp add: shape3_def reweight_def list_all_iff softmax_dim_m2_shape)

lemma weighted_out_shape:
  assumes c: "shape3 A B K c" and cb: "shape3 B K D (codebook self)"
    and d: "embedding_dim self = int D"
  shows "\<exists>out. weighted_out self c = Inr out \<and> shape2 A D out"
proof -
  have "list_all2 (\<lambda>wr cbr. length wr = length cbr) w (codebook self)" if "w \<in> set c" for w
  proof -
    have w: "shape2 B K w" using c that by (rule shape3_row)
    have "length w = length (codebook self)"
      using shape2_length [OF w] shape3_length [OF cb] by simp
    moreover have "length (w ! i) = length (codebook self ! i)" if "i < length w" for i
    proof -
      have i: "i < B" using that shape2_length [OF w] by simp
      have "length (w ! i) = K" using w i by (rule shape2_nth)
      moreover have "length (codebook self ! i) = K"
        using shape3_nth [OF cb i] by (rule shape2_length)
      ultimately show ?thesis by simp
    qed
    ultimately show ?thesis by (simp add: list_all2_conv_all_nth)
  qed
  then have ok: "list_all (\<lambda>w. list_all2 (\<lambda>wr cbr. length wr = length cbr) w (codebook self)) c"
    by (simp add: list_all_iff)
  let ?out = "map (\<lambda>w. map (\<lambda>d. sum_list (map (\<lambda>b.
                   sum_list (map (\<lambda>k. w ! b ! k * codebook self ! b ! k ! d) [0..<length (w ! b)]))
                 [0..<length w])) [0..<nat (embedding_dim self)]) c"
  have "weighted_out self c = Inr ?out" using ok by (simp add: weighted_out_def)
  moreover have "shape2 (length c) D ?out" by (rule shape2_map) (simp add: d)
  ultimately show ?thesis using shape3_length [OF c] by auto
qed

lemma view3_of_rows:
  assumes "shape2 (N * W) D out" "0 < N" "0 < D"
  shows "\<exists>t. view3 N (int D) (concat out) = Inr t \<and> shape3 N W D t"
proof -
  have "length (concat out) = N * W * D" using assms(1) by (rule length_concat_shape2)
  then show ?thesis using assms(2,3) by (rule view3_shape)
qed

lemma weighted_forward_shape:
  assumes wf: "well_formed self V B K D" and inp: "shape2 N W input" and ids: "token_ids V input"
    and N: "0 < N" and D: "0 < D" and w: "weighted self"
  shows "\<exists>out. fst (CompositionalEmbedding_forward self input iteration g) = Inr out \<and>
           shape3 N W D out"
proof -
  have code: "shape3 V B K (code self)" and cb: "shape3 B K D (codebook self)"
    and d: "embedding_dim self = int D"
    using wf by (simp_all add: well_formed_def)
  let ?c = "map (\<lambda>i. code self ! nat i) (concat input)"
  have sel: "index_select (code self) (concat input) = Inr ?c"
    using ids shape3_length [OF code] by (rule index_select_tokens(1))
  have "shape3 (N * W) B K (reweight ?c)"
    using selected_shape [OF ids code inp] by (rule reweight_shape)
  then obtain out where out: "weighted_out self (reweight ?c) = Inr out" "shape2 (N * W) D out"
    using weighted_out_shape [OF _ cb d] by blast
  obtain t where t: "view3 N (int D) (concat out) = Inr t" "shape3 N W D t"
    using view3_of_rows [OF out(2) N D] by blast
  have "fst (CompositionalEmbedding_forward self input iteration g) = Inr t"
    using sel w out(1) t(1) d shape2_length [OF inp]
    by (simp add: CompositionalEmbedding_forward_def)
  then show ?thesis using t(2) by blast
qed

lemma thread_rel:
  "(\<And>x g. x \<in> set xs \<Longrightarrow> P x (fst (f x g))) \<Longrightarrow> list_all2 P xs (fst (thread f xs g))"
proof (induction xs arbitrary: g)
  case Nil
  then show ?case by simp
next
  case (Cons x xs)
  obtain y g1 where y: "f x g = (y, g1)" by (cases "f x g")
  obtain ys g2 where ys: "thread f xs g1 = (ys, g2)" by (cases "thread f xs g1")
  have "P x y" using Cons.prems [of x g] y by simp
  moreover have "list_all2 P xs ys" using Cons.IH [of g1] Cons.prems ys by simp
  ultimately show ?case using y ys by simp
qed

lemma gumbel_row_length: "length (fst (gumbel_row v g)) = length v"
  by (simp add: gumbel_row_def softmax_def)

lemma list_all2_right:
  "list_all2 P xs ys \<Longrightarrow> y \<in> set ys \<Longrightarrow> \<exists>x\<in>set xs. P x y"
  by (induction rule: list_all2_induct) auto

lemma thread_gumbel_row_shape:
  assumes "shape2 B K m"
  shows "shape2 B K (fst (thread gumbel_row m g))"
proof -
  have l: "list_all2 (\<lambda>v v'. length v' = length v) m (fst (thread gumbel_row m g))"
    by (rule thread_rel) (simp add: gumbel_row_length)
  have "length (fst (thread gumbel_row m g)) = length m"
    using l by (simp add: list_all2_lengthD)
  then have len: "length (fst (thread gumbel_row m g)) = B"
    using assms by (simp add: shape2_def)
  have "length v' = K" if mem: "v' \<in> set (fst (thread gumbel_row m g))" for v'
  proof -
    obtain v where v: "v \<in> set m" "length v' = length v"
      using list_all2_right [OF l mem] by blast
    have "length v = K" using assms v(1) by (rule shape2_row)
    then show ?thesis using v(2) by simp
  qed
  then show ?thesis using len by (simp add: shape2_def list_all_iff)
qed

lemma gumbel_softmax_shape:
  assumes "shape3 A B K c"
  shows "shape3 A B K (fst (gumbel_softmax c g))"
proof -
  let ?r = "fst (thread (thread gumbel_row) c g)"
  have l: "list_all2 (\<lambda>m m'. shape2 B K m') c ?r"
  proof (rule thread_rel)
    fix m g' assume "m \<in> set c"
    then have "shape2 B K m" using assms by (rule shape3_row [rotated])
    then show "shape2 B K (fst (thread gumbel_row m g'))" by (rule thread_gumbel_row_shape)
  qed
  have "length ?r = length c" using l by (simp add: list_all2_lengthD)
  then have len: "length ?r = A" using assms by (simp add: shape3_def)
  have "shape2 B K m'" if "m' \<in> set ?r" for m'
    using list_all2_right [OF l that] by blast
  then show ?thesis using len by (simp add: shape3_def gumbel_softmax_def list_all_iff)
qed

lemma gumbel_samples_shape:
  assumes "shape3 A B K c"
  shows "length (fst (gumbel_samples n c g)) = n \<and>
         (\<forall>s \<in> set (fst (gumbel_samples n c g)). shape3 A B K s)"
proof (induction n arbitrary: g)
  case 0
  then show ?case by simp
next
  case (Suc n)
  obtain s g1 where s: "gumbel_softmax c g = (s, g1)" by (cases "gumbel_softmax c g")
  obtain ss g2 where ss: "gumbel_samples n c g1 = (ss, g2)" by (cases "gumbel_samples n c g1")
  have "shape3 A B K s" using gumbel_softmax_shape [OF assms, of g] s by simp
  then show ?case using Suc [of g1] s ss by simp
qed

lemma sum_stack3_value:
  assumes ne: "ts \<noteq> []" and sh: "\<And>t. t \<in> set ts \<Longrightarrow> shape3 A B K t"
  shows "sum_stack3 ts =
           Inr (map (\<lambda>n. map (\<lambda>b. map (\<lambda>k. sum_list (map (\<lambda>s. s ! n ! b ! k) ts))
                  [0..<K]) [0..<B]) [0..<A])"
proof -
  obtain t rest where ts: "ts = t # rest" using ne by (cases ts) auto
  have t: "shape3 A B K t" using sh ts by simp
  have a: "length t = A" using t by (rule shape3_length)
  have b: "length (t ! n) = B" if "n < A" for n
    using shape3_nth [OF t that] by (rule shape2_length)
  have k: "length (t ! n ! b) = K" if "n < A" "b < B" for n b
    using shape3_nth [OF t that(1)] that(2) by (rule shape2_nth)
  show ?thesis using a b k by (simp add: sum_stack3_def ts)
qed

lemma sum_stack3_shape:
  "shape3 A B K (map (\<lambda>n. map (\<lambda>b. map (\<lambda>k. f n b k) [0..<K]) [0..<B]) [0..<A])"
  by (simp add: shape3_def shape2_def list_all_iff)

lemma argmax_from_bound: "best < i \<Longrightarrow> argmax_from best bv i xs < i + length xs"
proof (induction xs arbitrary: best bv i)
  case Nil
  then show ?case by simp
next
  case (Cons x xs)
  show ?case
    using Cons.IH [of i "Suc i" x] Cons.IH [of best "Suc i" bv] Cons.prems by auto
qed

lemma argmax_from_scale:
  "0 < c \<Longrightarrow> argmax_from best (bv / c) i (map (\<lambda>x. x / c) xs) = argmax_from best bv i xs"
  by (induction xs arbitrary: best bv i) (simp_all add: divide_strict_right_mono divide_less_cancel)

lemma argmax_value:
  "v \<noteq> [] \<Longrightarrow> argmax v = Inr (argmax_from 0 (hd v) 1 (tl v))"
  by (cases v) (simp_all add: argmax_def)

lemma argmax_bound: "v \<noteq> [] \<Longrightarrow> argmax_from 0 (hd v) 1 (tl v) < length v"
  using argmax_from_bound [of 0 1 "hd v" "tl v"] by (cases v) simp_all

lemma argmax_scale:
  assumes "0 < c"
  shows "argmax (map (\<lambda>x. x / c) v) = argmax v"
proof (cases v)
  case Nil
  then show ?thesis by (simp add: argmax_def)
next
  case (Cons x xs)
  then show ?thesis using argmax_from_scale [OF assms, of 0 x 1 xs] by (simp add: argmax_def)
qed

lemma collect_map_arg: "collect f (map h xs) = collect (\<lambda>x. f (h x)) xs"
  by (induction xs) (simp_all split: sum.splits)

lemma select_codewords_shape:
  assumes ne: "samples \<noteq> []" and sh: "\<And>t. t \<in> set samples \<Longrightarrow> shape3 A B K t" and K: "0 < K"
  shows "\<exists>hard. select_codewords samples = Inr hard \<and> shape2 A B hard \<and>
           (\<forall>n<A. \<forall>b<B. hard ! n ! b < K)"
proof -
  let ?s = "map (\<lambda>n. map (\<lambda>b. map (\<lambda>k. sum_list (map (\<lambda>s. s ! n ! b ! k) samples))
                  [0..<K]) [0..<B]) [0..<A]"
  let ?am = "\<lambda>v. argmax_from 0 (hd v) 1 (tl v)"
  have s: "sum_stack3 samples = Inr ?s" using ne sh by (rule sum_stack3_value)
  have sh3: "shape3 A B K ?s" by (rule sum_stack3_shape)
  have vec: "argmax v = Inr (?am v)" if "m \<in> set ?s" "v \<in> set m" for m v
  proof -
    have "length v = K" using shape3_row [OF sh3 that(1)] that(2) by (rule shape2_row)
    then have "v \<noteq> []" using K by auto
    then show ?thesis by (rule argmax_value)
  qed
  have "collect (collect argmax) ?s = Inr (map (map ?am) ?s)"
    by (intro collect_map) (use vec in blast)
  then have sel: "select_codewords samples = Inr (map (map ?am) ?s)"
    using s by (simp add: select_codewords_def)
  have "shape2 A B (map (map ?am) ?s)" by (simp add: shape2_def list_all_iff)
  moreover have "map (map ?am) ?s ! n ! b < K" if "n < A" "b < B" for n b
  proof -
    let ?v = "map (\<lambda>k. sum_list (map (\<lambda>s. s ! n ! b ! k) samples)) [0..<K]"
    have "?v \<noteq> []" using K by simp
    then have "?am ?v < length ?v" by (rule argmax_bound)
    then show ?thesis using that by simp
  qed
  ultimately show ?thesis using sel by blast
qed

lemma gather_codeword_value:
  assumes hard: "shape2 A B hard" and lt: "\<forall>n<A. \<forall>b<B. hard ! n ! b < K"
    and cb: "shape3 B K D cb" and b: "b < B"
  shows "gather_codeword cb hard b = Inr (map (\<lambda>r. cb ! b ! (r ! b)) hard)"
proof -
  have lcb: "length cb = B" using cb by (rule shape3_length)
  have lrow: "length (cb ! b) = K" using shape3_nth [OF cb b] by (rule shape2_length)
  have rows: "b < length r \<and> r ! b < K" if mem: "r \<in> set hard" for r
  proof -
    obtain n where n: "n < length hard" "r = hard ! n"
      using mem by (auto simp: in_set_conv_nth)
    have nA: "n < A" using n(1) shape2_length [OF hard] by simp
    have "length r = B" using hard mem by (rule shape2_row)
    then show ?thesis using lt nA b n(2) by simp
  qed
  have "index_select (cb ! b) (map (\<lambda>r. int (r ! b)) hard) =
          Inr (map (\<lambda>r. cb ! b ! (r ! b)) hard)"
    using rows lrow by (simp add: index_select_def list_all_iff comp_def)
  then show ?thesis using rows lcb b by (simp add: gather_codeword_def list_all_iff)
qed

lemma unweighted_out_value:
  assumes hard: "shape2 A B hard" and lt: "\<forall>n<A. \<forall>b<B. hard ! n ! b < K"
    and cb: "shape3 B K D (codebook self)" and nb: "num_codebook self = int B" and B: "0 < B"
  shows "unweighted_out self hard =
           Inr (map (\<lambda>n. map (\<lambda>d. sum_list (map (\<lambda>b. codebook self ! b ! (hard ! n ! b) ! d)
                  [0..<B])) [0..<D]) [0..<A])"
proof -
  let ?cb = "codebook self"
  let ?g = "\<lambda>b. map (\<lambda>r. ?cb ! b ! (r ! b)) hard"
  have col: "collect (gather_codeword ?cb hard) [0..<B] = Inr (map ?g [0..<B])"
    by (rule collect_map) (use gather_codeword_value [OF hard lt cb] in simp)
  have lh: "length hard = A" using hard by (rule shape2_length)
  have ts: "map ?g [0..<B] = ?g 0 # map ?g [1..<B]"
    using B by (simp add: upt_conv_Cons)
  have d: "length (?cb ! 0 ! (hard ! n ! 0)) = D" if "n < A" for n
  proof -
    have "hard ! n ! 0 < K" using lt that B by simp
    then show ?thesis using shape3_nth [OF cb B] by (rule shape2_nth [rotated])
  qed
  have "sum_stack2 (map ?g [0..<B]) =
          Inr (map (\<lambda>n. map (\<lambda>d. sum_list (map (\<lambda>s. s ! n ! d) (map ?g [0..<B])))
                 [0..<length (?g 0 ! n)]) [0..<length (?g 0)])"
    unfolding sum_stack2_def by (subst (1) ts) simp
  also have "\<dots> = Inr (map (\<lambda>n. map (\<lambda>d. sum_list (map (\<lambda>b. ?cb ! b ! (hard ! n ! b) ! d)
                  [0..<B])) [0..<D]) [0..<A])"
    using lh d by (simp add: comp_def)
  finally show ?thesis using col nb by (simp add: unweighted_out_def)
qed

lemma unweighted_forward_value:
  assumes wf: "well_formed self V B K D" and inp: "shape2 N W input" and ids: "token_ids V input"
    and N: "0 < N" and D: "0 < D" and B: "0 < B" and K: "0 < K"
    and uw: "\<not> weighted self"
    and it: "0 < (case iteration of None \<Rightarrow> 10 | Some i \<Rightarrow> i)"
  shows "\<exists>c hard.
           index_select (code self) (concat input) = Inr c \<and>
           select_codewords
             (fst (gumbel_samples (nat (case iteration of None \<Rightarrow> 10 | Some i \<Rightarrow> i)) c g)) = Inr hard \<and>
           shape2 (N * W) B hard \<and> (\<forall>t<N * W. \<forall>b<B. hard ! t ! b < K) \<and>
           fst (CompositionalEmbedding_forward self input iteration g) =
             Inr (map (\<lambda>n. map (\<lambda>w. map (\<lambda>d.
                    sum_list (map (\<lambda>b. codebook self ! b ! (hard ! (n * W + w) ! b) ! d) [0..<B]))
                  [0..<D]) [0..<W]) [0..<N])"
proof -
  let ?n = "nat (case iteration of None \<Rightarrow> 10 | Some i \<Rightarrow> i)"
  have code: "shape3 V B K (code self)" and cb: "shape3 B K D (codebook self)"
    and d: "embedding_dim self = int D" and nb: "num_codebook self = int B"
    using wf by (simp_all add: well_formed_def)
  let ?c = "map (\<lambda>i. code self ! nat i) (concat input)"
  have sel: "index_select (code self) (concat input) = Inr ?c"
    using ids shape3_length [OF code] by (rule index_select_tokens(1))
  have csh: "shape3 (N * W) B K ?c" using ids code inp by (rule selected_shape)
  obtain samples g' where sm: "gumbel_samples ?n ?c g = (samples, g')"
    by (cases "gumbel_samples ?n ?c g")
  have "length samples = ?n" and ssh: "\<And>s. s \<in> set samples \<Longrightarrow> shape3 (N * W) B K s"
    using gumbel_samples_shape [OF csh, of ?n g] sm by simp_all
  then have ne: "samples \<noteq> []" using it by auto
  obtain hard where hard: "select_codewords samples = Inr hard" "shape2 (N * W) B hard"
      "\<forall>t<N * W. \<forall>b<B. hard ! t ! b < K"
    using select_codewords_shape [OF ne ssh K] by blast
  let ?out = "map (\<lambda>n. map (\<lambda>d. sum_list (map (\<lambda>b. codebook self ! b ! (hard ! n ! b) ! d)
                  [0..<B])) [0..<D]) [0..<N * W]"
  have out: "unweighted_out self hard = Inr ?out"
    using hard(2,3) cb nb B by (rule unweighted_out_value)
  have osh: "shape2 (N * W) D ?out" by (simp add: shape2_def list_all_iff)
  have "view3 N (int D) (concat ?out) =
          Inr (map (\<lambda>i. map (\<lambda>j. ?out ! (i * W + j)) [0..<W]) [0..<N])"
    using osh N D by (rule view3_concat)
  also have "\<dots> = Inr (map (\<lambda>n. map (\<lambda>w. map (\<lambda>d.
                    sum_list (map (\<lambda>b. codebook self ! b ! (hard ! (n * W + w) ! b) ! d) [0..<B]))
                  [0..<D]) [0..<W]) [0..<N])"
    using index_bound [of _ N _ W] by simp
  finally have v: "view3 N (int D) (concat ?out) =
          Inr (map (\<lambda>n. map (\<lambda>w. map (\<lambda>d.
                    sum_list (map (\<lambda>b. codebook self ! b ! (hard ! (n * W + w) ! b) ! d) [0..<B]))
                  [0..<D]) [0..<W]) [0..<N])" .
  have "fst (CompositionalEmbedding_forward self input iteration g) =
          Inr (map (\<lambda>n. map (\<lambda>w. map (\<lambda>d.
                    sum_list (map (\<lambda>b. codebook self ! b ! (hard ! (n * W + w) ! b) ! d) [0..<B]))
                  [0..<D]) [0..<W]) [0..<N])"
    using sel uw sm hard(1) out v d shape2_length [OF inp]
    by (simp add: CompositionalEmbedding_forward_def)
  then show ?thesis using sel sm hard by auto
qed

lemma spec_tensor_shape:
  "shape3 N W D (map (\<lambda>n. map (\<lambda>w. map (\<lambda>d. f n w d) [0..<D]) [0..<W]) [0..<N])"
  by (simp add: shape3_def shape2_def list_all_iff)

subsection \<open>The arg-max of the source and the first maximum\<close>

lemma first_maximum_step:
  assumes "first_maximum pre best"
  shows "first_maximum (pre @ [x]) (if pre ! best < x then length pre else best)"
proof (cases "pre ! best < x")
  case True
  have "y < x" if "y \<in> set pre" for y
  proof -
    have "y \<le> pre ! best" using assms that by (simp add: first_maximum_def list_all_iff)
    then show ?thesis using True by simp
  qed
  then show ?thesis using True by (auto simp: first_maximum_def list_all_iff intro: less_imp_le)
next
  case False
  then show ?thesis
    using assms by (auto simp: first_maximum_def list_all_iff nth_append)
qed

lemma argmax_from_first_maximum:
  "first_maximum pre best \<Longrightarrow>
   first_maximum (pre @ xs) (argmax_from best (pre ! best) (length pre) xs)"
proof (induction xs arbitrary: pre best)
  case Nil
  then show ?case by simp
next
  case (Cons x xs)
  let ?b = "if pre ! best < x then length pre else best"
  have fm: "first_maximum (pre @ [x]) ?b" using Cons.prems by (rule first_maximum_step)
  have best: "best < length pre" using Cons.prems by (simp add: first_maximum_def)
  have val: "(pre @ [x]) ! ?b = (if pre ! best < x then x else pre ! best)"
    using best by (simp add: nth_append)
  have "first_maximum ((pre @ [x]) @ xs) (argmax_from ?b ((pre @ [x]) ! ?b) (length (pre @ [x])) xs)"
    using fm by (rule Cons.IH)
  then show ?case using val by (simp split: if_splits)
qed

lemma argmax_first_maximum:
  assumes "v \<noteq> []"
  shows "\<exists>i. argmax v = Inr i \<and> first_maximum v i"
proof -
  obtain x rest where v: "v = x # rest" using assms by (cases v) auto
  have "first_maximum [x] 0" by (simp add: first_maximum_def)
  from argmax_from_first_maximum [OF this, of rest]
  show ?thesis by (simp add: v argmax_def)
qed

lemma hd_filter_upt:
  assumes "i < n" "P i" "\<And>j. j < i \<Longrightarrow> \<not> P j"
  shows "hd (filter P [0..<n]) = i"
proof -
  have "[0..<n] = [0..<i] @ i # [Suc i..<n]"
    using assms(1) by (metis le_add1 less_imp_add_positive upt_add_eq_append upt_conv_Cons plus_nat.add_0)
  moreover have "filter P [0..<i] = []" using assms(3) by (simp add: filter_empty_conv)
  ultimately show ?thesis using assms(2) by simp
qed

lemma first_maximum_is_first_argmax:
  assumes "first_maximum v i"
  shows "first_argmax v = i"
  unfolding first_argmax_def
proof (rule hd_filter_upt)
  show "i < length v" using assms by (simp add: first_maximum_def)
  show "list_all (\<lambda>x. x \<le> v ! i) v" using assms by (simp add: first_maximum_def)
  fix j assume j: "j < i"
  have "v ! j \<in> set (take i v)"
    using j assms by (metis first_maximum_def in_set_conv_nth length_take min.absorb2 less_imp_le nth_take)
  then have "v ! j < v ! i" using assms by (simp add: first_maximum_def list_all_iff)
  moreover have "v ! i \<in> set v" using assms by (simp add: first_maximum_def)
  ultimately have "\<exists>x\<in>set v. \<not> x \<le> v ! j" by (intro bexI [of _ "v ! i"]) simp_all
  then show "\<not> list_all (\<lambda>x. x \<le> v ! j) v" by (simp add: list_all_iff)
qed

lemma argmax_is_first_argmax:
  assumes "v \<noteq> []"
  shows "argmax v = Inr (first_argmax v)" and "first_maximum v (first_argmax v)"
proof -
  obtain i where i: "argmax v = Inr i" "first_maximum v i"
    using argmax_first_maximum [OF assms] by blast
  have "first_argmax v = i" using i(2) by (rule first_maximum_is_first_argmax)
  then show "argmax v = Inr (first_argmax v)" "first_maximum v (first_argmax v)"
    using i by simp_all
qed

subsection \<open>The samples the source draws\<close>

lemma thread_uniform:
  assumes "\<And>x g. x \<in> set xs \<Longrightarrow> f x g = (F x g, \<lambda>n. g (n + s))"
  shows "thread f xs g =
           (map (\<lambda>i. F (xs ! i) (\<lambda>n. g (n + i * s))) [0..<length xs],
            \<lambda>n. g (n + length xs * s))"
  using assms
proof (induction xs arbitrary: g)
  case Nil
  then show ?case by simp
next
  case (Cons x xs)
  have hd: "f x g = (F x g, \<lambda>n. g (n + s))" using Cons.prems by simp
  have tl: "thread f xs (\<lambda>n. g (n + s)) =
              (map (\<lambda>i. F (xs ! i) (\<lambda>n. g (n + i * s + s))) [0..<length xs],
               \<lambda>n. g (n + length xs * s + s))"
    using Cons.IH [of "\<lambda>n. g (n + s)"] Cons.prems by simp
  have "map (\<lambda>i. F ((x # xs) ! i) (\<lambda>n. g (n + i * s))) [0..<length (x # xs)] =
          F x g # map (\<lambda>i. F (xs ! i) (\<lambda>n. g (n + i * s + s))) [0..<length xs]"
    by (simp add: map_upt_Suc add.commute add.left_commute del: upt_Suc)
  then show ?case using hd tl by (simp add: add.commute add.left_commute)
qed

lemma gumbel_row_value:
  "gumbel_row logits g = (relaxed_categorical logits g, \<lambda>n. g (n + length logits))"
  by (simp add: gumbel_row_def softmax_def relaxed_categorical_def comp_def)

lemma thread_gumbel_row_value:
  assumes "shape2 B K m"
  shows "thread gumbel_row m g =
           (map (\<lambda>b. relaxed_categorical (m ! b) (\<lambda>n. g (n + b * K))) [0..<B],
            \<lambda>n. g (n + B * K))"
proof -
  have "gumbel_row v g' = (relaxed_categorical v g', \<lambda>n. g' (n + K))" if "v \<in> set m" for v g'
    using shape2_row [OF assms that] by (simp add: gumbel_row_value)
  from thread_uniform [of m gumbel_row relaxed_categorical K, OF this]
  show ?thesis using shape2_length [OF assms] by simp
qed

lemma gumbel_softmax_value:
  assumes "shape3 T B K c"
  shows "gumbel_softmax c g =
           (map (\<lambda>t. map (\<lambda>b. relaxed_categorical (c ! t ! b) (\<lambda>n. g (n + b * K + t * (B * K))))
                   [0..<B]) [0..<T],
            \<lambda>n. g (n + T * (B * K)))"
proof -
  let ?F = "\<lambda>m g'. map (\<lambda>b. relaxed_categorical (m ! b) (\<lambda>n. g' (n + b * K))) [0..<B]"
  have "thread gumbel_row m g' = (?F m g', \<lambda>n. g' (n + B * K))" if "m \<in> set c" for m g'
    using shape3_row [OF assms that] by (rule thread_gumbel_row_value)
  from thread_uniform [of c "thread gumbel_row" ?F "B * K", OF this]
  show ?thesis using shape3_length [OF assms] by (simp add: gumbel_softmax_def)
qed

lemma sample_noise_fun:
  "sample_noise g T B K j t b = (\<lambda>k. g (((j * T + t) * B + b) * K + k))"
  by (simp add: sample_noise_def fun_eq_iff)

lemma gumbel_samples_value:
  assumes "shape3 T B K c"
  shows "fst (gumbel_samples n c g) =
           map (\<lambda>j. map (\<lambda>t. map (\<lambda>b. relaxed_categorical (c ! t ! b) (sample_noise g T B K j t b))
                   [0..<B]) [0..<T]) [0..<n]"
proof (induction n arbitrary: g)
  case 0
  then show ?case by simp
next
  case (Suc n)
  let ?S = "\<lambda>g j. map (\<lambda>t. map (\<lambda>b. relaxed_categorical (c ! t ! b) (sample_noise g T B K j t b))
                   [0..<B]) [0..<T]"
  let ?g1 = "\<lambda>n. g (n + T * (B * K))"
  have s: "gumbel_softmax c g = (?S g 0, ?g1)"
    using gumbel_softmax_value [OF assms, of g] by (simp add: sample_noise_fun algebra_simps)
  have "fst (gumbel_samples n c ?g1) = map (?S ?g1) [0..<n]" by (rule Suc.IH)
  also have "\<dots> = map (\<lambda>j. ?S g (Suc j)) [0..<n]" by (simp add: sample_noise_fun algebra_simps)
  finally have r: "fst (gumbel_samples n c ?g1) = map (\<lambda>j. ?S g (Suc j)) [0..<n]" .
  have m: "map (?S g) [0..<Suc n] = ?S g 0 # map (\<lambda>j. ?S g (Suc j)) [0..<n]"
    by (simp add: map_upt_Suc del: upt_Suc)
  obtain ss g2 where ss: "gumbel_samples n c ?g1 = (ss, g2)"
    by (cases "gumbel_samples n c ?g1")
  have "fst (gumbel_samples (Suc n) c g) = ?S g 0 # ss"
    by (simp add: s ss)
  also have "ss = map (\<lambda>j. ?S g (Suc j)) [0..<n]" using r ss by simp
  finally show ?case by (simp only: m)
qed

lemma averaged_sample_scaled:
  assumes c: "shape3 T B K c" and t: "t < T" and b: "b < B"
  shows "averaged_sample g c n t b =
           map (\<lambda>x. x / real n)
             (map (\<lambda>k. sum_list (map (\<lambda>j. relaxed_categorical (c ! t ! b)
                                             (sample_noise g T B K j t b) ! k) [0..<n])) [0..<K])"
proof -
  have "length c = T" using c by (rule shape3_length)
  moreover have "length (c ! t) = B" using shape3_nth [OF c t] by (rule shape2_length)
  moreover have "length (c ! t ! b) = K" using shape3_nth [OF c t] b by (rule shape2_nth)
  ultimately show ?thesis by (simp add: averaged_sample_def comp_def)
qed

lemma argmax_of_summed_samples:
  assumes c: "shape3 T B K c" and t: "t < T" and b: "b < B" and n: "0 < n" and K: "0 < K"
  shows "argmax (map (\<lambda>k. sum_list (map (\<lambda>j. relaxed_categorical (c ! t ! b)
                                             (sample_noise g T B K j t b) ! k) [0..<n])) [0..<K])
           = Inr (hard_index_spec g c n t b)"
    and "length (averaged_sample g c n t b) = K"
    and "first_maximum (averaged_sample g c n t b) (hard_index_spec g c n t b)"
proof -
  let ?sum = "map (\<lambda>k. sum_list (map (\<lambda>j. relaxed_categorical (c ! t ! b)
                                             (sample_noise g T B K j t b) ! k) [0..<n])) [0..<K]"
  have avg: "averaged_sample g c n t b = map (\<lambda>x. x / real n) ?sum"
    using c t b by (rule averaged_sample_scaled)
  show len: "length (averaged_sample g c n t b) = K" by (simp add: avg)
  then have ne: "averaged_sample g c n t b \<noteq> []" using K by auto
  have "0 < real n" using n by simp
  then have "argmax (map (\<lambda>x. x / real n) ?sum) = argmax ?sum" by (rule argmax_scale)
  then have "argmax ?sum = argmax (map (\<lambda>x. x / real n) ?sum)" by (rule sym)
  also have "\<dots> = Inr (first_argmax (averaged_sample g c n t b))"
    using argmax_is_first_argmax(1) [OF ne] by (simp only: avg)
  finally show "argmax ?sum = Inr (hard_index_spec g c n t b)"
    by (simp add: hard_index_spec_def)
  show "first_maximum (averaged_sample g c n t b) (hard_index_spec g c n t b)"
    using argmax_is_first_argmax(2) [OF ne] by (simp add: hard_index_spec_def)
qed

lemma select_codewords_value:
  assumes c: "shape3 T B K c" and n: "0 < n" and K: "0 < K"
  shows "select_codewords (fst (gumbel_samples n c g)) =
           Inr (map (\<lambda>t. map (\<lambda>b. hard_index_spec g c n t b) [0..<B]) [0..<T])"
proof -
  let ?S = "\<lambda>j. map (\<lambda>t. map (\<lambda>b. relaxed_categorical (c ! t ! b) (sample_noise g T B K j t b))
                   [0..<B]) [0..<T]"
  let ?samples = "map ?S [0..<n]"
  let ?sum = "\<lambda>t b. map (\<lambda>k. sum_list (map (\<lambda>j. relaxed_categorical (c ! t ! b)
                                             (sample_noise g T B K j t b) ! k) [0..<n])) [0..<K]"
  have sm: "fst (gumbel_samples n c g) = ?samples" using c by (rule gumbel_samples_value)
  have ne: "?samples \<noteq> []" using n by simp
  have sh: "shape3 T B K s" if "s \<in> set ?samples" for s
    using gumbel_samples_shape [OF c, of n g] that by (simp only: sm)
  have "sum_stack3 ?samples =
          Inr (map (\<lambda>t. map (\<lambda>b. map (\<lambda>k. sum_list (map (\<lambda>s. s ! t ! b ! k) ?samples))
                 [0..<K]) [0..<B]) [0..<T])"
    using ne sh by (rule sum_stack3_value)
  also have "\<dots> = Inr (map (\<lambda>t. map (\<lambda>b. ?sum t b) [0..<B]) [0..<T])"
    by (simp add: comp_def)
  finally have st: "sum_stack3 ?samples = Inr (map (\<lambda>t. map (\<lambda>b. ?sum t b) [0..<B]) [0..<T])" .
  have row: "collect argmax (map (\<lambda>b. ?sum t b) [0..<B]) =
               Inr (map (\<lambda>b. hard_index_spec g c n t b) [0..<B])" if "t < T" for t
    by (subst collect_map_arg, rule collect_map)
      (use argmax_of_summed_samples(1) [OF c that _ n K] in simp)
  have "collect (collect argmax) (map (\<lambda>t. map (\<lambda>b. ?sum t b) [0..<B]) [0..<T]) =
          Inr (map (\<lambda>t. map (\<lambda>b. hard_index_spec g c n t b) [0..<B]) [0..<T])"
    by (subst collect_map_arg, rule collect_map) (use row in simp)
  then show ?thesis using st by (simp add: select_codewords_def sm)
qed

subsection \<open>The stages of the model's forward pass\<close>

lemma Model_forward_result:
  assumes "fst (embedding_forward (embedding self) x g) = Inr embedded"
    and "features self embedded = Inr out"
    and "pool self out = Inr pooled"
  shows "fst (Model_forward self x g) = classify self pooled"
  using assms by (cases "embedding_forward (embedding self) x g") (simp add: Model_forward_def)

lemma pool_shape:
  assumes "shape3 N W (2 * h) out" "0 < W" "hidden_size self = int h"
  shows "\<exists>pooled. pool self out = Inr pooled \<and> shape2 N h pooled \<and>
           (\<forall>n<N. \<forall>j<h. pooled ! n ! j =
              sum_list (map (\<lambda>t. out ! n ! t ! j + out ! n ! t ! (h + j)) [0..<W]) / real W)"
proof -
  let ?p = "map (\<lambda>rows. map (\<lambda>j. sum_list (map (\<lambda>v. v ! j + v ! (h + j)) rows) / real W)
                  [0..<h]) out"
  have p: "pool self out = Inr ?p" using assms by (rule pool_value)
  have N: "length out = N" using assms(1) by (rule shape3_length)
  have "shape2 (length out) h ?p" by (rule shape2_map) simp
  then have sh: "shape2 N h ?p" using N by simp
  have "?p ! n ! j = sum_list (map (\<lambda>t. out ! n ! t ! j + out ! n ! t ! (h + j)) [0..<W]) / real W"
    if "n < N" "j < h" for n j
  proof -
    have "length (out ! n) = W"
      using shape3_nth [OF assms(1) that(1)] by (rule shape2_length)
    then have "map (\<lambda>v. v ! j + v ! (h + j)) (out ! n) =
                 map (\<lambda>t. out ! n ! t ! j + out ! n ! t ! (h + j)) [0..<W]"
      using map_by_index [of "\<lambda>v. v ! j + v ! (h + j)" "out ! n"] by simp
    then show ?thesis using that N by simp
  qed
  then show ?thesis using p sh by blast
qed

lemma norm_last_nth:
  "length v = D \<Longrightarrow> norm_last v = sqrt (sum_list (map (\<lambda>i. (v ! i) ^ 2) [0..<D]))"
  using map_by_index [of "\<lambda>x. x ^ 2" v] by (simp add: norm_last_def)

lemma classify_capsule:
  assumes ct: "classifier_type self = ''capsule''"
    and cl: "classifier self = CapsuleLinear a route"
    and L: "in_length self = int L" "0 < L" "L dvd h"
    and contract: "\<forall>caps. shape3 N (h div L) L caps \<longrightarrow>
                     (\<exists>poses. route caps = Inr poses \<and> shape3 N C D poses)"
    and p: "shape2 N h pooled" and N: "0 < N"
  shows "\<exists>caps poses scores.
           view3 N (int L) (concat pooled) = Inr caps \<and> shape3 N (h div L) L caps \<and>
           route caps = Inr poses \<and> classify self pooled = Inr scores \<and> shape2 N C scores \<and>
           (\<forall>n<N. \<forall>c<C. scores ! n ! c =
              sqrt (sum_list (map (\<lambda>i. (poses ! n ! c ! i) ^ 2) [0..<D])))"
proof -
  have "h = h div L * L" using L(3) by simp
  then have "N * h = N * (h div L) * L" by (metis mult.assoc)
  then have len: "length (concat pooled) = N * (h div L) * L"
    using length_concat_shape2 [OF p] by simp
  obtain caps where caps: "view3 N (int L) (concat pooled) = Inr caps" "shape3 N (h div L) L caps"
    using view3_shape [OF len N L(2)] by blast
  obtain poses where poses: "route caps = Inr poses" "shape3 N C D poses"
    using contract caps(2) by blast
  let ?scores = "map (map norm_last) poses"
  have cls: "classify self pooled = Inr ?scores"
    using ct cl L(1) caps(1) poses(1) shape2_length [OF p] by (simp add: classify_def)
  have lenp: "length poses = N" using poses(2) by (rule shape3_length)
  have rows: "shape2 C D (poses ! n)" if "n < N" for n
    using poses(2) that by (rule shape3_nth)
  have "shape2 (length poses) C ?scores"
    using poses(2) by (intro shape2_map) (auto dest: shape3_row shape2_length)
  then have sh: "shape2 N C ?scores" using lenp by simp
  have "?scores ! n ! c = sqrt (sum_list (map (\<lambda>i. (poses ! n ! c ! i) ^ 2) [0..<D]))"
    if "n < N" "c < C" for n c
  proof -
    have "length (poses ! n) = C" using rows [OF that(1)] by (rule shape2_length)
    moreover have "length (poses ! n ! c) = D" using rows [OF that(1)] that(2) by (rule shape2_nth)
    ultimately show ?thesis using that lenp by (simp add: norm_last_nth)
  qed
  then show ?thesis using caps poses(1) cls sh by blast
qed

lemma classify_linear:
  assumes ct: "classifier_type self \<noteq> ''capsule''"
    and cl: "classifier self = Linear (int h) w"
    and w: "shape2 C h w"
    and p: "shape2 N h pooled" and N: "0 < N"
  shows "\<exists>scores. classify self pooled = Inr scores \<and> shape2 N C scores \<and>
           (\<forall>n<N. \<forall>c<C. scores ! n ! c =
              sum_list (map (\<lambda>j. pooled ! n ! j * w ! c ! j) [0..<h]))"
proof -
  let ?scores = "map (\<lambda>v. map (\<lambda>row. sum_list (map (\<lambda>j. v ! j * row ! j) [0..<h])) w) pooled"
  have "collect (linear_forward (int h) w) pooled = Inr ?scores"
  proof (rule collect_map)
    fix v assume "v \<in> set pooled"
    then have "length v = h" using p by (rule shape2_row [rotated])
    then show "linear_forward (int h) w v =
        Inr (map (\<lambda>row. sum_list (map (\<lambda>j. v ! j * row ! j) [0..<h])) w)"
      by (simp add: linear_forward_def)
  qed
  then have cls: "classify self pooled = Inr ?scores"
    using ct cl view2_concat [OF p N] shape2_length [OF p] by (simp add: classify_def)
  have lenp: "length pooled = N" using p by (rule shape2_length)
  have lenw: "length w = C" using w by (rule shape2_length)
  have "shape2 (length pooled) C ?scores" by (rule shape2_map) (simp add: lenw)
  then have sh: "shape2 N C ?scores" using lenp by simp
  have "?scores ! n ! c = sum_list (map (\<lambda>j. pooled ! n ! j * w ! c ! j) [0..<h])"
    if "n < N" "c < C" for n c
    using that lenp lenw by simp
  then show ?thesis using cls sh by blast
qed

subsection \<open>What a forward pass leaves behind\<close>

lemma CompositionalEmbedding_forward_module:
  "fst (snd (CompositionalEmbedding_forward self input iteration g)) = self"
  by (simp add: CompositionalEmbedding_forward_def Let_def split: sum.splits prod.splits)

lemma embedding_forward_module: "fst (snd (embedding_forward m x g)) = m"
proof (cases m)
  case (Compositional e)
  then show ?thesis
    using CompositionalEmbedding_forward_module [of e x None g]
    by (cases "CompositionalEmbedding_forward e x None g") auto
next
  case (Embedding w)
  then show ?thesis by simp
qed

subsection \<open>The sample models\<close>

lemma linear_model_value:
  "linear_model =
     \<lparr>in_length = 2, out_length = 2, hidden_size = 4, classifier_type = ''linear'',
      embedding = Embedding [[1, 1], [1, 1], [1, 1]],
      features = projr (sample_gru 2 4),
      classifier = Linear 4 [[1, 1, 1, 1], [1, 1, 1, 1]]\<rparr>"
  by (simp add: linear_model_def build_defs replicate_numeral)

lemma capsule_model_value:
  "capsule_model =
     \<lparr>in_length = 2, out_length = 2, hidden_size = 4, classifier_type = ''capsule'',
      embedding = Compositional
        \<lparr>num_embeddings = 3, embedding_dim = 2, num_codebook = 2, weighted = True,
         code = [[[1, 1], [1, 1]], [[1, 1], [1, 1]], [[1, 1], [1, 1]]],
         codebook = [[[1, 1], [1, 1]], [[1, 1], [1, 1]]]\<rparr>,
      features = projr (sample_gru 2 4),
      classifier = CapsuleLinear sample_args sample_route\<rparr>"
  by (simp add: capsule_model_def sample_route_def sample_args_def build_defs upt_conv_Cons)

lemma sample_route_contract:
  assumes "shape3 N 2 2 caps"
  shows "\<exists>poses. sample_route caps = Inr poses \<and> shape3 N 2 2 poses"
proof -
  have "list_all (\<lambda>c. int (length c) = 2 \<and> list_all (\<lambda>v. int (length v) = 2) c) caps"
    using assms by (auto simp: shape3_def shape2_def list_all_iff)
  then have "sample_route caps =
      Inr (map (\<lambda>c. replicate 2 (replicate 2 (sum_list (concat c)))) caps)"
    by (simp add: sample_route_def sample_capsule_def sample_args_def)
  moreover have "shape3 N 2 2 (map (\<lambda>c. replicate 2 (replicate 2 (sum_list (concat c)))) caps)"
    using assms by (simp add: shape3_def shape2_def list_all_iff)
  ultimately show ?thesis by blast
qed

text \<open>
  A classifier type \<^verbatim>\<open>capsule\<close> with a routing type that \<^verbatim>\<open>__init__\<close> does not know: the linear
  layer is built, the forward pass still reshapes into capsules, and the layer refuses them.
\<close>

lemma capsule_type_without_capsule_layer:
  "classifier (projr (Model_init sample_library 3 2 2 (Some 2) 4 2 2 2 ''kmeans'' ''plain'' ''capsule'' 3))
     = Linear 4 [[1, 1, 1, 1], [1, 1, 1, 1]] \<and>
   fst (Model_forward
          (projr (Model_init sample_library 3 2 2 (Some 2) 4 2 2 2 ''kmeans'' ''plain'' ''capsule'' 3))
          sample_batch zero_rng) = Inl RuntimeError"
  by (simp add: build_defs run_defs sample_batch_def)

lemma two_books_well_formed:
  "well_formed two_books 1 2 3 1" "well_formed two_books_hard 1 2 3 1"
  "weighted two_books" "\<not> weighted two_books_hard"
  by (simp_all add: well_formed_def two_books_hard_def two_books_def shape3_def shape2_def)

lemma single_token_batch: "shape2 1 1 [[0::int]]" "token_ids 1 [[0]]"
  by (simp_all add: shape2_def token_ids_def)

lemma unweighted_forward_at_zero_noise:
  "fst (CompositionalEmbedding_forward two_books_hard [[0]] (Some 2) zero_rng) = Inr [[[2]]]"
  by (simp add: two_books_hard_def two_books_def run_defs gumbel_softmax_def gumbel_row_def
      softmax_def select_codewords_def sum_stack3_def argmax_def unweighted_out_def
      gather_codeword_def sum_stack2_def zero_rng_def numeral_2_eq_2)

text \<open>
  In unweighted mode the codeword follows the noise: without noise the first of two equal
  logits wins, with noise on the second codeword the second wins.
\<close>

lemma unweighted_forward_follows_noise:
  "fst (CompositionalEmbedding_forward two_words [[0]] (Some 2) zero_rng) = Inr [[[10]]] \<and>
   fst (CompositionalEmbedding_forward two_words [[0]] (Some 2) tilted_rng) = Inr [[[20]]]"
proof -
  have lt: "1 / (1 + exp 1) < exp 1 / (1 + exp (1::real))"
    by (simp add: divide_strict_right_mono add_pos_pos)
  have lt2: "2 / (1 + exp 1) < 2 * exp 1 / (1 + exp (1::real))"
    by (simp add: divide_strict_right_mono add_pos_pos)
  show ?thesis
    using lt lt2
    by (simp add: two_words_def run_defs gumbel_softmax_def gumbel_row_def
      softmax_def select_codewords_def sum_stack3_def argmax_def unweighted_out_def
      gather_codeword_def sum_stack2_def zero_rng_def tilted_rng_def numeral_2_eq_2)
qed

section \<open>The weights of the weighted mode\<close>

text \<open>
  C1. The claim: in weighted mode the weights of one token and one codebook are a probability
  distribution over that codebook's codewords, so they add up to 1. On the module
  \<open>two_books\<close> and the batch of the single token 0 the selected logits are all zero, the
  softmax of line 59 runs over the two codebooks and gives every weight the value 1/2, and
  the three weights of each codebook add up to 3/2; the embedding returned is 3, where
  weights summing to 1 in each of the two codebooks would give 2.
\<close>

theorem codeword_weights_at_zero_logits:
  "index_select (code two_books) (concat [[0]]) = Inr [[[0, 0, 0], [0, 0, 0]]] \<and>
   map (map sum_list) (reweight [[[0, 0, 0], [0, 0, 0]]]) = [[3 / 2, 3 / 2]] \<and>
   fst (CompositionalEmbedding_forward two_books [[0]] None zero_rng) = Inr [[[3]]]"
  by (simp add: CompositionalEmbedding_forward_def two_books_def index_select_def reweight_def
      softmax_dim_m2_def weighted_out_def view3_def upt_conv_Cons)


section \<open>Construction of the compositional embedding\<close>

text \<open>
  C7, as the code has it. The constructor checks nothing itself. A negative
  \<^verbatim>\<open>embedding_dim\<close> or \<^verbatim>\<open>num_codebook\<close> makes the allocation of a parameter fail, and a zero
  \<^verbatim>\<open>num_codebook\<close> with \<^verbatim>\<open>num_codeword\<close> left out makes \<^verbatim>\<open>1 / num_codebook\<close> fail, both
  inside the constructor. Sizes of zero together with an explicit \<^verbatim>\<open>num_codeword\<close> are
  accepted.
\<close>

theorem construction_rejects_negative_sizes:
  "(e_dim < 0 \<or> n_codebook < 0 \<or> (n_codebook = 0 \<and> n_codeword = None) \<longrightarrow>
      isl (CompositionalEmbedding_init cp z V e_dim n_codebook n_codeword w)) \<and>
   (0 \<le> V \<and> 0 \<le> e_dim \<and> 0 \<le> n_codebook \<and> 0 \<le> k \<longrightarrow>
      \<not> isl (CompositionalEmbedding_init cp z V e_dim n_codebook (Some k) w))"
  by (auto simp: CompositionalEmbedding_init_def torch_Tensor_def
      split: sum.splits option.splits prod.splits)

theorem construction_rejects_negative_sizes_witness:
  "((-1::int) < 0 \<and>
      isl (CompositionalEmbedding_init (ceil_pow sample_library) zero_rng 3 (-1) 2 (Some 2) True)) \<and>
   ((0::int) = 0 \<and>
      isl (CompositionalEmbedding_init (ceil_pow sample_library) zero_rng 3 2 0 None True)) \<and>
   ((0::int) \<le> 3 \<and> (0::int) \<le> 0 \<and> (0::int) \<le> 2 \<and>
      \<not> isl (CompositionalEmbedding_init (ceil_pow sample_library) zero_rng 3 0 2 (Some 2) True))"
  using construction_rejects_negative_sizes
          [of "-1" 2 "Some 2" "ceil_pow sample_library" zero_rng 3 True 2]
        construction_rejects_negative_sizes
          [of 2 0 None "ceil_pow sample_library" zero_rng 3 True 2]
        construction_rejects_negative_sizes
          [of 0 2 "Some 2" "ceil_pow sample_library" zero_rng 3 True 2]
  by simp

text \<open>
  C7, as the claim has it, fails: with \<^verbatim>\<open>embedding_dim\<close> zero the constructor returns a
  module, and the failure waits for the forward pass, whose reshape raises.
\<close>

theorem zero_embedding_dim_is_constructed:
  "\<not> isl (CompositionalEmbedding_init (ceil_pow sample_library) zero_rng 3 0 2 (Some 2) True) \<and>
   fst (CompositionalEmbedding_forward
          (projr (CompositionalEmbedding_init (ceil_pow sample_library) zero_rng 3 0 2 (Some 2) True))
          [[0]] None zero_rng) = Inl RuntimeError"
  by (simp add: CompositionalEmbedding_init_def torch_Tensor_def init_normal_def zero_rng_def
      CompositionalEmbedding_forward_def index_select_def reweight_def softmax_dim_m2_def
      weighted_out_def view3_def upt_conv_Cons)

section \<open>Determinism of the weighted mode\<close>

text \<open>
  C8. In weighted mode the result of \<^verbatim>\<open>CompositionalEmbedding.forward\<close> is the same whatever
  the state of the random generator, and the call draws nothing from it: two invocations on
  the same parameters and the same batch return the same output.
\<close>

theorem weighted_forward_deterministic:
  assumes "weighted self"
  shows "fst (CompositionalEmbedding_forward self input iteration g) =
           fst (CompositionalEmbedding_forward self input iteration g') \<and>
         snd (snd (CompositionalEmbedding_forward self input iteration g)) = g"
  using assms
  by (simp add: CompositionalEmbedding_forward_def Let_def split: sum.splits)

theorem weighted_forward_deterministic_witness:
  "weighted two_books \<and>
   fst (CompositionalEmbedding_forward two_books [[0]] None zero_rng) =
     fst (CompositionalEmbedding_forward two_books [[0]] None unit_rng) \<and>
   snd (snd (CompositionalEmbedding_forward two_books [[0]] None zero_rng)) = zero_rng"
  using weighted_forward_deterministic [of two_books "[[0]]" None zero_rng unit_rng]
  by (simp add: two_books_def)

section \<open>Forward passes and the parameters\<close>

text \<open>
  C9. A forward pass of the compositional embedding returns the module as it was given, with
  every parameter and attribute unchanged, and so does a forward pass of the model; nothing
  is kept from one call to the next. (The random generator, which is no part of the module,
  advances in unweighted mode.)
\<close>

theorem forward_leaves_module:
  "fst (snd (CompositionalEmbedding_forward self input iteration g)) = self \<and>
   fst (snd (Model_forward m x g)) = m"
proof
  show "fst (snd (CompositionalEmbedding_forward self input iteration g)) = self"
    by (rule CompositionalEmbedding_forward_module)
  show "fst (snd (Model_forward m x g)) = m"
    using embedding_forward_module [of "embedding m" x g]
    by (cases "embedding_forward (embedding m) x g") (auto simp: Model_forward_def)
qed

theorem forward_leaves_module_witness:
  "fst (snd (CompositionalEmbedding_forward two_books_hard [[0]] None zero_rng)) = two_books_hard \<and>
   fst (snd (Model_forward capsule_model [[0, 1]] zero_rng)) = capsule_model"
  by (rule forward_leaves_module)

section \<open>Unrecognised variant strings\<close>

text \<open>
  C10. An \<^verbatim>\<open>embedding_type\<close> other than \<^verbatim>\<open>cwc\<close> and \<^verbatim>\<open>cc\<close> selects the lookup table, and a
  \<^verbatim>\<open>classifier_type\<close> other than \<^verbatim>\<open>capsule\<close>, or \<^verbatim>\<open>capsule\<close> with a \<^verbatim>\<open>routing_type\<close> other than
  \<^verbatim>\<open>k_means\<close> and \<^verbatim>\<open>dynamic\<close>, selects the linear classifier. In either case the
  construction raises only what the constructors of the chosen modules raise: the string
  itself is never rejected.
\<close>

theorem unrecognised_variants_fall_back:
  "(embedding_type \<noteq> ''cwc'' \<and> embedding_type \<noteq> ''cc'' \<longrightarrow>
      Model_init lib V E B K H L O' C routing_type embedding_type c_type n =
        (case new_Embedding lib V E of
           Inl e \<Rightarrow> Inl e
         | Inr w \<Rightarrow>
             (case new_GRU lib E H of
                Inl e \<Rightarrow> Inl e
              | Inr gru \<Rightarrow>
                  (case make_classifier lib C L O' H routing_type c_type n of
                     Inl e \<Rightarrow> Inl e
                   | Inr cls \<Rightarrow>
                       Inr \<lparr>in_length = L, out_length = O', hidden_size = H,
                            classifier_type = c_type, embedding = Embedding w, features = gru,
                            classifier = cls\<rparr>)))) \<and>
   (c_type \<noteq> ''capsule'' \<or> (routing_type \<noteq> ''k_means'' \<and> routing_type \<noteq> ''dynamic'') \<longrightarrow>
      Model_init lib V E B K H L O' C routing_type embedding_type c_type n =
        (case make_embedding lib V E B K embedding_type of
           Inl e \<Rightarrow> Inl e
         | Inr emb \<Rightarrow>
             (case new_GRU lib E H of
                Inl e \<Rightarrow> Inl e
              | Inr gru \<Rightarrow>
                  (case new_Linear lib H C of
                     Inl e \<Rightarrow> Inl e
                   | Inr w \<Rightarrow>
                       Inr \<lparr>in_length = L, out_length = O', hidden_size = H,
                            classifier_type = c_type, embedding = emb, features = gru,
                            classifier = Linear H w\<rparr>))))"
  by (auto simp: Model_init_def make_embedding_def make_classifier_def split: sum.splits)

theorem unrecognised_variants_fall_back_witness:
  "''cwd'' \<noteq> ''cwc'' \<and> ''cwd'' \<noteq> ''cc'' \<and> ''kmeans'' \<noteq> ''k_means'' \<and> ''kmeans'' \<noteq> ''dynamic'' \<and>
   \<not> isl (Model_init sample_library 3 2 2 (Some 2) 4 2 2 2 ''kmeans'' ''cwd'' ''capsule'' 3) \<and>
   embedding (projr (Model_init sample_library 3 2 2 (Some 2) 4 2 2 2 ''kmeans'' ''cwd'' ''capsule'' 3))
     = Embedding [[1, 1], [1, 1], [1, 1]] \<and>
   classifier (projr (Model_init sample_library 3 2 2 (Some 2) 4 2 2 2 ''kmeans'' ''cwd'' ''capsule'' 3))
     = Linear 4 [[1, 1, 1, 1], [1, 1, 1, 1]]"
  using unrecognised_variants_fall_back
          [of "''cwd''" sample_library 3 2 2 "Some 2" 4 2 2 2 "''kmeans''" "''capsule''" 3]
  by (simp add: build_defs replicate_numeral)

section \<open>Pooling of the encoder output\<close>

text \<open>
  C5. When the embedding and the encoder succeed and the encoder output has the shape
  (batch, time, 2 * hidden_size) with at least one time step, the forward pass of the model
  adds the two halves of the last dimension element-wise and averages the sums over the time
  steps: the pooled tensor has one row of \<^verbatim>\<open>hidden_size\<close> entries per example, and it is what
  the classification stage receives.
\<close>

theorem pooling_sums_directions_then_averages:
  assumes "fst (embedding_forward (embedding self) x g) = Inr embedded"
    and "features self embedded = Inr out"
    and "shape3 N W (2 * h) out" and "0 < W" and "hidden_size self = int h"
  shows "\<exists>pooled. pool self out = Inr pooled \<and> shape2 N h pooled \<and>
           (\<forall>n<N. \<forall>j<h. pooled ! n ! j =
              sum_list (map (\<lambda>t. out ! n ! t ! j + out ! n ! t ! (h + j)) [0..<W]) / real W) \<and>
           fst (Model_forward self x g) = classify self pooled"
proof -
  obtain pooled where p: "pool self out = Inr pooled" "shape2 N h pooled"
    "\<forall>n<N. \<forall>j<h. pooled ! n ! j =
        sum_list (map (\<lambda>t. out ! n ! t ! j + out ! n ! t ! (h + j)) [0..<W]) / real W"
    using pool_shape [OF assms(3-5)] by blast
  have "fst (Model_forward self x g) = classify self pooled"
    using assms(1,2) p(1) by (rule Model_forward_result)
  then show ?thesis using p by blast
qed

theorem pooling_sums_directions_then_averages_witness:
  "fst (embedding_forward (embedding linear_model) [[0, 1]] zero_rng) = Inr [[[1, 1], [1, 1]]] \<and>
   features linear_model [[[1, 1], [1, 1]]] =
     Inr [[[2, 2, 2, 2, 2, 2, 2, 2], [2, 2, 2, 2, 2, 2, 2, 2]]] \<and>
   shape3 1 2 (2 * 4) [[[2, 2, 2, 2, 2, 2, 2, 2], [2, 2, 2, 2, 2, 2, 2, 2 :: real]]] \<and>
   hidden_size linear_model = int 4 \<and>
   (\<exists>pooled. pool linear_model [[[2, 2, 2, 2, 2, 2, 2, 2], [2, 2, 2, 2, 2, 2, 2, 2]]] = Inr pooled \<and>
      shape2 1 4 pooled \<and>
      (\<forall>n<1. \<forall>j<4. pooled ! n ! j =
          sum_list (map (\<lambda>t. [[[2, 2, 2, 2, 2, 2, 2, 2], [2, 2, 2, 2, 2, 2, 2, 2]]] ! n ! t ! j +
                              [[[2, 2, 2, 2, 2, 2, 2, 2], [2, 2, 2, 2, 2, 2, 2, 2]]] ! n ! t ! (4 + j))
                     [0..<2]) / real 2) \<and>
      fst (Model_forward linear_model [[0, 1]] zero_rng) = classify linear_model pooled)"
proof -
  have e: "fst (embedding_forward (embedding linear_model) [[0, 1]] zero_rng) = Inr [[[1, 1], [1, 1]]]"
    by (simp add: linear_model_value index_select_def)
  have f: "features linear_model [[[1, 1], [1, 1]]] =
             Inr [[[2, 2, 2, 2, 2, 2, 2, 2], [2, 2, 2, 2, 2, 2, 2, 2]]]"
    by (simp add: linear_model_value sample_gru_def replicate_numeral)
  have s: "shape3 1 2 (2 * 4) [[[2, 2, 2, 2, 2, 2, 2, 2], [2, 2, 2, 2, 2, 2, 2, 2 :: real]]]"
    by (simp add: shape3_def shape2_def)
  have w: "(0::nat) < 2" by simp
  have h: "hidden_size linear_model = int 4"
    by (simp add: linear_model_value)
  show ?thesis
    using pooling_sums_directions_then_averages [OF e f s w h] e f s h by simp
qed

section \<open>Class scores\<close>

text \<open>
  C6, as the code has it. When the embedding and the encoder succeed on a batch of at least
  one example and the encoder output has the shape (batch, time, 2 * hidden_size) with at
  least one time step, the forward pass of the model returns scores of shape
  (batch, num_class) in these configurations. Under the classifier type \<^verbatim>\<open>capsule\<close> with a
  capsule layer built, \<^verbatim>\<open>in_length\<close> positive and dividing \<^verbatim>\<open>hidden_size\<close>, and a capsule layer
  that maps (batch, hidden_size / in_length, in_length) to poses of shape
  (batch, num_class, out_length), the score of a class is the Euclidean norm of its pose.
  Under a classifier type other than \<^verbatim>\<open>capsule\<close>, with the linear layer's weight of shape
  (num_class, hidden_size), the score of a class is the linear logit of the pooled vector.
\<close>

theorem class_scores:
  assumes e: "fst (embedding_forward (embedding self) x g) = Inr embedded"
    and f: "features self embedded = Inr out"
    and sh: "shape3 N W (2 * h) out" and W: "0 < W" and N: "0 < N"
    and h: "hidden_size self = int h"
  shows "(classifier_type self = ''capsule'' \<and> classifier self = CapsuleLinear a route \<and>
          in_length self = int L \<and> 0 < L \<and> L dvd h \<and>
          (\<forall>caps. shape3 N (h div L) L caps \<longrightarrow>
             (\<exists>poses. route caps = Inr poses \<and> shape3 N C D poses)) \<longrightarrow>
            (\<exists>pooled caps poses scores.
               pool self out = Inr pooled \<and> view3 N (int L) (concat pooled) = Inr caps \<and>
               route caps = Inr poses \<and>
               fst (Model_forward self x g) = Inr scores \<and> shape2 N C scores \<and>
               (\<forall>n<N. \<forall>c<C. scores ! n ! c =
                  sqrt (sum_list (map (\<lambda>i. (poses ! n ! c ! i) ^ 2) [0..<D]))))) \<and>
         (classifier_type self \<noteq> ''capsule'' \<and> classifier self = Linear (int h) w \<and>
          shape2 C h w \<longrightarrow>
            (\<exists>pooled scores.
               pool self out = Inr pooled \<and>
               fst (Model_forward self x g) = Inr scores \<and> shape2 N C scores \<and>
               (\<forall>n<N. \<forall>c<C. scores ! n ! c =
                  sum_list (map (\<lambda>j. pooled ! n ! j * w ! c ! j) [0..<h]))))"
proof -
  obtain pooled where p: "pool self out = Inr pooled" "shape2 N h pooled"
    using pool_shape [OF sh W h] by blast
  have fwd: "fst (Model_forward self x g) = classify self pooled"
    using e f p(1) by (rule Model_forward_result)
  show ?thesis
  proof (intro conjI impI)
    assume c: "classifier_type self = ''capsule'' \<and> classifier self = CapsuleLinear a route \<and>
          in_length self = int L \<and> 0 < L \<and> L dvd h \<and>
          (\<forall>caps. shape3 N (h div L) L caps \<longrightarrow>
             (\<exists>poses. route caps = Inr poses \<and> shape3 N C D poses))"
    then have "\<exists>caps poses scores.
           view3 N (int L) (concat pooled) = Inr caps \<and> shape3 N (h div L) L caps \<and>
           route caps = Inr poses \<and> classify self pooled = Inr scores \<and> shape2 N C scores \<and>
           (\<forall>n<N. \<forall>c<C. scores ! n ! c =
              sqrt (sum_list (map (\<lambda>i. (poses ! n ! c ! i) ^ 2) [0..<D])))"
      using p(2) N by (intro classify_capsule) blast+
    then show "\<exists>pooled caps poses scores.
               pool self out = Inr pooled \<and> view3 N (int L) (concat pooled) = Inr caps \<and>
               route caps = Inr poses \<and>
               fst (Model_forward self x g) = Inr scores \<and> shape2 N C scores \<and>
               (\<forall>n<N. \<forall>c<C. scores ! n ! c =
                  sqrt (sum_list (map (\<lambda>i. (poses ! n ! c ! i) ^ 2) [0..<D])))"
      using p(1) fwd by auto
  next
    assume l: "classifier_type self \<noteq> ''capsule'' \<and> classifier self = Linear (int h) w \<and>
          shape2 C h w"
    then have "\<exists>scores. classify self pooled = Inr scores \<and> shape2 N C scores \<and>
           (\<forall>n<N. \<forall>c<C. scores ! n ! c =
              sum_list (map (\<lambda>j. pooled ! n ! j * w ! c ! j) [0..<h]))"
      using p(2) N by (intro classify_linear) blast+
    then show "\<exists>pooled scores.
               pool self out = Inr pooled \<and>
               fst (Model_forward self x g) = Inr scores \<and> shape2 N C scores \<and>
               (\<forall>n<N. \<forall>c<C. scores ! n ! c =
                  sum_list (map (\<lambda>j. pooled ! n ! j * w ! c ! j) [0..<h]))"
      using p(1) fwd by auto
  qed
qed

theorem class_scores_witness:
  "(\<exists>pooled caps poses scores.
      pool capsule_model [[[4, 4, 4, 4, 4, 4, 4, 4], [4, 4, 4, 4, 4, 4, 4, 4]]] = Inr pooled \<and>
      view3 1 (int 2) (concat pooled) = Inr caps \<and> sample_route caps = Inr poses \<and>
      fst (Model_forward capsule_model sample_batch zero_rng) = Inr scores \<and> shape2 1 2 scores \<and>
      (\<forall>n<1. \<forall>c<2. scores ! n ! c =
         sqrt (sum_list (map (\<lambda>i. (poses ! n ! c ! i) ^ 2) [0..<2])))) \<and>
   (\<exists>pooled scores.
      pool linear_model [[[2, 2, 2, 2, 2, 2, 2, 2], [2, 2, 2, 2, 2, 2, 2, 2]]] = Inr pooled \<and>
      fst (Model_forward linear_model sample_batch zero_rng) = Inr scores \<and> shape2 1 2 scores \<and>
      (\<forall>n<1. \<forall>c<2. scores ! n ! c =
         sum_list (map (\<lambda>j. pooled ! n ! j * [[1, 1, 1, 1], [1, 1, 1, 1]] ! c ! j) [0..<4])))"
proof -
  let ?oc = "[[[4, 4, 4, 4, 4, 4, 4, 4], [4, 4, 4, 4, 4, 4, 4, 4 :: real]]]"
  let ?ol = "[[[2, 2, 2, 2, 2, 2, 2, 2], [2, 2, 2, 2, 2, 2, 2, 2 :: real]]]"
  have ec: "fst (embedding_forward (embedding capsule_model) sample_batch zero_rng) =
              Inr [[[2, 2], [2, 2]]]"
    by (simp add: capsule_model_value sample_batch_def run_defs)
  have fc: "features capsule_model [[[2, 2], [2, 2]]] = Inr ?oc"
    by (simp add: capsule_model_value sample_gru_def replicate_numeral)
  have sc: "shape3 1 2 (2 * 4) ?oc" by (simp add: shape3_def shape2_def)
  have hc: "hidden_size capsule_model = int 4" by (simp add: capsule_model_value)
  have cap: "classifier_type capsule_model = ''capsule'' \<and>
             classifier capsule_model = CapsuleLinear sample_args sample_route \<and>
             in_length capsule_model = int 2 \<and> (0::nat) < 2 \<and> (2::nat) dvd 4 \<and>
             (\<forall>caps. shape3 1 (4 div 2) 2 caps \<longrightarrow>
                (\<exists>poses. sample_route caps = Inr poses \<and> shape3 1 2 2 poses))"
    using sample_route_contract [of 1] by (simp add: capsule_model_value)
  have el: "fst (embedding_forward (embedding linear_model) sample_batch zero_rng) =
              Inr [[[1, 1], [1, 1]]]"
    by (simp add: linear_model_value sample_batch_def index_select_def)
  have fl: "features linear_model [[[1, 1], [1, 1]]] = Inr ?ol"
    by (simp add: linear_model_value sample_gru_def replicate_numeral)
  have sl: "shape3 1 2 (2 * 4) ?ol" by (simp add: shape3_def shape2_def)
  have hl: "hidden_size linear_model = int 4" by (simp add: linear_model_value)
  have lin: "classifier_type linear_model \<noteq> ''capsule'' \<and>
             classifier linear_model = Linear (int 4) [[1, 1, 1, 1], [1, 1, 1, 1]] \<and>
             shape2 2 4 [[1, 1, 1, 1], [1, 1, 1, 1 :: real]]"
    by (simp add: linear_model_value shape2_def)
  have w: "(0::nat) < 2" and n: "(0::nat) < 1" by simp_all
  from class_scores [OF ec fc sc w n hc, where a = sample_args and route = sample_route and L = 2 and C = 2 and D = 2] cap
  have 1: "\<exists>pooled caps poses scores.
      pool capsule_model ?oc = Inr pooled \<and>
      view3 1 (int 2) (concat pooled) = Inr caps \<and> sample_route caps = Inr poses \<and>
      fst (Model_forward capsule_model sample_batch zero_rng) = Inr scores \<and> shape2 1 2 scores \<and>
      (\<forall>n<1. \<forall>c<2. scores ! n ! c =
         sqrt (sum_list (map (\<lambda>i. (poses ! n ! c ! i) ^ 2) [0..<2])))"
    by blast
  from class_scores [OF el fl sl w n hl, where C = 2 and w = "[[1, 1, 1, 1], [1, 1, 1, 1]]"] lin
  have 2: "\<exists>pooled scores.
      pool linear_model ?ol = Inr pooled \<and>
      fst (Model_forward linear_model sample_batch zero_rng) = Inr scores \<and> shape2 1 2 scores \<and>
      (\<forall>n<1. \<forall>c<2. scores ! n ! c =
         sum_list (map (\<lambda>j. pooled ! n ! j * [[1, 1, 1, 1], [1, 1, 1, 1]] ! c ! j) [0..<4]))"
    by blast
  from 1 2 show ?thesis by blast
qed

text \<open>
  C6, as the claim has it, fails. A model with a capsule classifier whose \<^verbatim>\<open>in_length\<close> 4
  does not divide its \<^verbatim>\<open>hidden_size\<close> 6 is constructed and raises in the forward pass. A
  model of classifier type \<^verbatim>\<open>capsule\<close> with a routing type that \<^verbatim>\<open>__init__\<close> does not know gets
  the linear layer, and with \<^verbatim>\<open>in_length\<close> equal to \<^verbatim>\<open>hidden_size\<close> its forward pass returns
  the norm of the logits, of shape (1, 1) for 2 classes. A batch of no example raises.
\<close>

theorem class_scores_fail_on_other_configurations:
  "\<not> isl (Model_init sample_library 3 2 2 (Some 2) 6 4 2 2 ''dynamic'' ''plain'' ''capsule'' 3) \<and>
   isl (fst (Model_forward
          (projr (Model_init sample_library 3 2 2 (Some 2) 6 4 2 2 ''dynamic'' ''plain'' ''capsule'' 3))
          sample_batch zero_rng)) \<and>
   \<not> isl (Model_init sample_library 3 2 2 (Some 2) 4 4 2 2 ''kmeans'' ''plain'' ''capsule'' 3) \<and>
   fst (Model_forward
          (projr (Model_init sample_library 3 2 2 (Some 2) 4 4 2 2 ''kmeans'' ''plain'' ''capsule'' 3))
          sample_batch zero_rng) = Inr [[sqrt 512]] \<and>
   \<not> shape2 1 2 [[sqrt 512]] \<and>
   isl (fst (Model_forward linear_model [] zero_rng))"
  by (simp add: build_defs run_defs sample_batch_def linear_model_value shape2_def)

section \<open>Capsule count and divisibility\<close>

text \<open>
  C2, as the code has it. With a capsule classifier (routing \<^verbatim>\<open>k_means\<close> or \<^verbatim>\<open>dynamic\<close>) and a
  \<^verbatim>\<open>hidden_size\<close> that \<^verbatim>\<open>in_length\<close> does not divide, \<^verbatim>\<open>Model.__init__\<close> checks nothing: it
  hands the capsule layer the floor \<^verbatim>\<open>hidden_size // in_length\<close> as the capsule count and
  succeeds whenever the constructors of the embedding, the encoder and the capsule layer do.
  The failure comes in the forward pass: on every batch that reaches the reshape into
  capsules, the reshape raises.
\<close>

theorem capsule_count_is_floored:
  assumes ct: "c_type = ''capsule''"
    and rt: "routing_type = ''k_means'' \<or> routing_type = ''dynamic''"
    and L: "L \<noteq> 0" and nd: "\<not> L dvd H"
    and emb: "make_embedding lib V E B K embedding_type = Inr emb"
    and gru: "new_GRU lib E H = Inr gru"
    and caps: "new_CapsuleLinear lib
                 \<lparr>out_capsules = C, caps_in_length = L, caps_out_length = O',
                  in_capsules = H div L, share_weight = False,
                  caps_routing_type = routing_type, caps_num_iterations = n, bias = False\<rparr>
               = Inr route"
  shows "\<exists>m a. Model_init lib V E B K H L O' C routing_type embedding_type c_type n = Inr m \<and>
           classifier m = CapsuleLinear a route \<and> in_capsules a = H div L \<and>
           (\<forall>x g embedded out N W.
              fst (embedding_forward (embedding m) x g) = Inr embedded \<and>
              features m embedded = Inr out \<and>
              shape3 N W (2 * nat H) out \<and> 0 < N \<and> 0 < W \<and> 0 \<le> H \<longrightarrow>
              fst (Model_forward m x g) = Inl RuntimeError)"
proof -
  let ?a = "\<lparr>out_capsules = C, caps_in_length = L, caps_out_length = O',
             in_capsules = H div L, share_weight = False,
             caps_routing_type = routing_type, caps_num_iterations = n, bias = False\<rparr>"
  let ?m = "\<lparr>in_length = L, out_length = O', hidden_size = H, classifier_type = c_type,
             embedding = emb, features = gru, classifier = CapsuleLinear ?a route\<rparr>"
  have cls: "make_classifier lib C L O' H routing_type c_type n = Inr (CapsuleLinear ?a route)"
    using ct rt L caps by (auto simp: make_classifier_def make_capsule_def)
  have init: "Model_init lib V E B K H L O' C routing_type embedding_type c_type n = Inr ?m"
    using emb gru cls by (simp add: Model_init_def)
  have fwd: "\<forall>x g embedded out N W.
              fst (embedding_forward (embedding ?m) x g) = Inr embedded \<and>
              features ?m embedded = Inr out \<and>
              shape3 N W (2 * nat H) out \<and> 0 < N \<and> 0 < W \<and> 0 \<le> H \<longrightarrow>
              fst (Model_forward ?m x g) = Inl RuntimeError"
  proof (intro allI impI, elim conjE)
    fix x g embedded out N W
    assume e: "fst (embedding_forward (embedding ?m) x g) = Inr embedded"
      and f: "features ?m embedded = Inr out"
      and sh: "shape3 N W (2 * nat H) out" and N: "0 < N" and W: "0 < W" and H: "0 \<le> H"
    have h: "hidden_size ?m = int (nat H)" using H by simp
    obtain pooled where p: "pool ?m out = Inr pooled" "shape2 N (nat H) pooled"
      using pool_shape [OF sh W h] by blast
    have "\<not> L dvd int (nat H)" using nd H by simp
    then have "view3 N L (concat pooled) = Inl RuntimeError"
      using p(2) N by (intro view3_not_divisible)
    then have "classify ?m pooled = Inl RuntimeError"
      using ct shape2_length [OF p(2)] by (simp add: classify_def)
    then show "fst (Model_forward ?m x g) = Inl RuntimeError"
      using Model_forward_result [OF e f p(1)] by simp
  qed
  have "Model_init lib V E B K H L O' C routing_type embedding_type c_type n = Inr ?m \<and>
        classifier ?m = CapsuleLinear ?a route \<and> in_capsules ?a = H div L"
    using init by simp
  then show ?thesis using fwd by blast
qed

theorem capsule_count_is_floored_witness:
  "\<not> (2::int) dvd 5 \<and>
   (\<exists>m a. Model_init sample_library 3 2 2 (Some 2) 5 2 2 2 ''dynamic'' ''plain'' ''capsule'' 3 = Inr m \<and>
      classifier m = CapsuleLinear a sample_route \<and> in_capsules a = 2 \<and>
      fst (Model_forward m sample_batch zero_rng) = Inl RuntimeError)"
proof -
  have nd: "\<not> (2::int) dvd 5" by simp
  have ct: "''capsule'' = ''capsule''" by simp
  have rt: "''dynamic'' = ''k_means'' \<or> ''dynamic'' = ''dynamic''" by simp
  have L: "(2::int) \<noteq> 0" by simp
  have emb: "make_embedding sample_library 3 2 2 (Some 2) ''plain'' = Inr (Embedding [[1, 1], [1, 1], [1, 1]])"
    by (simp add: build_defs replicate_numeral)
  have gru: "new_GRU sample_library 2 5 = Inr (projr (sample_gru 2 5))"
    by (simp add: sample_library_def sample_gru_def)
  have caps: "new_CapsuleLinear sample_library
                 \<lparr>out_capsules = 2, caps_in_length = 2, caps_out_length = 2,
                  in_capsules = 5 div 2, share_weight = False,
                  caps_routing_type = ''dynamic'', caps_num_iterations = 3, bias = False\<rparr>
               = Inr sample_route"
    by (simp add: sample_library_def sample_route_def sample_args_def sample_capsule_def)
  obtain m a where m: "Model_init sample_library 3 2 2 (Some 2) 5 2 2 2 ''dynamic'' ''plain'' ''capsule'' 3 = Inr m"
      "classifier m = CapsuleLinear a sample_route" "in_capsules a = 5 div 2"
      and fwd: "\<forall>x g embedded out N W.
              fst (embedding_forward (embedding m) x g) = Inr embedded \<and>
              features m embedded = Inr out \<and>
              shape3 N W (2 * nat 5) out \<and> 0 < N \<and> 0 < W \<and> (0::int) \<le> 5 \<longrightarrow>
              fst (Model_forward m x g) = Inl RuntimeError"
    using capsule_count_is_floored [OF ct rt L nd emb gru caps] by auto
  have mv: "embedding m = Embedding [[1, 1], [1, 1], [1, 1]]" "features m = projr (sample_gru 2 5)"
    using m(1) by (auto simp: build_defs replicate_numeral)
  have e: "fst (embedding_forward (embedding m) sample_batch zero_rng) = Inr [[[1, 1], [1, 1]]]"
    by (simp add: mv sample_batch_def index_select_def)
  have f: "features m [[[1, 1], [1, 1]]] =
             Inr [[[2, 2, 2, 2, 2, 2, 2, 2, 2, 2], [2, 2, 2, 2, 2, 2, 2, 2, 2, 2]]]"
    by (simp add: mv sample_gru_def replicate_numeral)
  have s: "shape3 1 2 (2 * nat 5) [[[2, 2, 2, 2, 2, 2, 2, 2, 2, 2], [2, 2, 2, 2, 2, 2, 2, 2, 2, 2 :: real]]]"
    by (simp add: shape3_def shape2_def)
  have "fst (Model_forward m sample_batch zero_rng) = Inl RuntimeError"
    using fwd e f s by (metis zero_less_one zero_less_numeral zero_le_numeral)
  then show ?thesis using nd m by auto
qed

text \<open>
  C2, as the claim has it, fails: with \<^verbatim>\<open>hidden_size\<close> 5 and \<^verbatim>\<open>in_length\<close> 2 the construction
  returns a model, and the forward pass on a batch raises.
\<close>

theorem non_divisible_hidden_size_is_constructed:
  "\<not> (2::int) dvd 5 \<and>
   \<not> isl (Model_init sample_library 3 2 2 (Some 2) 5 2 2 2 ''dynamic'' ''plain'' ''capsule'' 3) \<and>
   fst (Model_forward
          (projr (Model_init sample_library 3 2 2 (Some 2) 5 2 2 2 ''dynamic'' ''plain'' ''capsule'' 3))
          [[0, 1]] zero_rng) = Inl RuntimeError"
  by (simp add: build_defs run_defs)

section \<open>Shape of the embedding\<close>

text \<open>
  C3, as the code has it. For a module whose parameters have the shapes the constructor gives
  them, with an \<^verbatim>\<open>embedding_dim\<close> of at least 1, and a batch of shape (batch, seq_len) with at
  least one sequence and every token id in the range of the vocabulary, the forward pass
  returns a tensor of shape (batch, seq_len, embedding_dim): in weighted mode for all numbers
  of codebooks and codewords, in unweighted mode for all positive numbers of codebooks and
  codewords and a positive iteration count.
\<close>

theorem forward_output_shape:
  assumes wf: "well_formed self V B K D" and inp: "shape2 N W input" and ids: "token_ids V input"
    and N: "0 < N" and D: "0 < D"
    and mode: "weighted self \<or>
               (0 < B \<and> 0 < K \<and> 0 < (case iteration of None \<Rightarrow> 10 | Some i \<Rightarrow> i))"
  shows "\<exists>out. fst (CompositionalEmbedding_forward self input iteration g) = Inr out \<and>
           shape3 N W D out"
proof (cases "weighted self")
  case True
  with wf inp ids N D show ?thesis by (intro weighted_forward_shape)
next
  case False
  then have "0 < B" "0 < K" "0 < (case iteration of None \<Rightarrow> 10 | Some i \<Rightarrow> i)"
    using mode by simp_all
  from unweighted_forward_value [OF wf inp ids N D this(1,2) False this(3), of g]
  obtain hard where
    f: "fst (CompositionalEmbedding_forward self input iteration g) =
          Inr (map (\<lambda>n. map (\<lambda>w. map (\<lambda>d.
                 sum_list (map (\<lambda>b. codebook self ! b ! (hard ! (n * W + w) ! b) ! d) [0..<B]))
               [0..<D]) [0..<W]) [0..<N])"
    by blast
  have "shape3 N W D (map (\<lambda>n. map (\<lambda>w. map (\<lambda>d.
                 sum_list (map (\<lambda>b. codebook self ! b ! (hard ! (n * W + w) ! b) ! d) [0..<B]))
               [0..<D]) [0..<W]) [0..<N])"
    by (rule spec_tensor_shape)
  with f show ?thesis by blast
qed

theorem forward_output_shape_witness:
  "well_formed two_books 1 2 3 1 \<and> well_formed two_books_hard 1 2 3 1 \<and>
   shape2 1 1 [[0::int]] \<and> token_ids 1 [[0]] \<and>
   (\<exists>out. fst (CompositionalEmbedding_forward two_books [[0]] None zero_rng) = Inr out \<and>
      shape3 1 1 1 out) \<and>
   (\<exists>out. fst (CompositionalEmbedding_forward two_books_hard [[0]] (Some 2) unit_rng) = Inr out \<and>
      shape3 1 1 1 out)"
proof -
  have one: "(0::nat) < 1" by simp
  have m1: "weighted two_books \<or>
            ((0::nat) < 2 \<and> (0::nat) < 3 \<and> (0::int) < (case None of None \<Rightarrow> 10 | Some i \<Rightarrow> i))"
    using two_books_well_formed(3) by simp
  have m2: "weighted two_books_hard \<or>
            ((0::nat) < 2 \<and> (0::nat) < 3 \<and> (0::int) < (case Some 2 of None \<Rightarrow> 10 | Some i \<Rightarrow> i))"
    by simp
  note a = forward_output_shape [OF two_books_well_formed(1) single_token_batch one one m1,
      of zero_rng]
  note b = forward_output_shape [OF two_books_well_formed(2) single_token_batch one one m2,
      of unit_rng]
  show ?thesis
    using a b two_books_well_formed(1,2) single_token_batch by (intro conjI)
qed

text \<open>
  C3, as the claim has it, fails: the constructor accepts an \<^verbatim>\<open>embedding_dim\<close> of zero, and
  in unweighted mode a \<^verbatim>\<open>num_codebook\<close> or a \<^verbatim>\<open>num_codeword\<close> of zero, and on each of these
  modules the forward pass raises on a batch of one token in range; it also raises in
  unweighted mode with an iteration count of zero, and on a batch of no sequence.
\<close>

theorem forward_raises_on_degenerate_sizes:
  "\<not> isl (CompositionalEmbedding_init (ceil_pow sample_library) zero_rng 3 0 2 (Some 2) True) \<and>
   isl (fst (CompositionalEmbedding_forward
          (projr (CompositionalEmbedding_init (ceil_pow sample_library) zero_rng 3 0 2 (Some 2) True))
          [[0]] None zero_rng)) \<and>
   \<not> isl (CompositionalEmbedding_init (ceil_pow sample_library) zero_rng 3 2 0 (Some 2) False) \<and>
   isl (fst (CompositionalEmbedding_forward
          (projr (CompositionalEmbedding_init (ceil_pow sample_library) zero_rng 3 2 0 (Some 2) False))
          [[0]] (Some 2) zero_rng)) \<and>
   \<not> isl (CompositionalEmbedding_init (ceil_pow sample_library) zero_rng 3 2 2 (Some 0) False) \<and>
   isl (fst (CompositionalEmbedding_forward
          (projr (CompositionalEmbedding_init (ceil_pow sample_library) zero_rng 3 2 2 (Some 0) False))
          [[0]] (Some 2) zero_rng)) \<and>
   isl (fst (CompositionalEmbedding_forward two_books_hard [[0]] (Some 0) zero_rng)) \<and>
   isl (fst (CompositionalEmbedding_forward two_books [] None zero_rng))"
  by (simp add: build_defs run_defs sample_defs two_books_hard_def two_books_def numeral_2_eq_2)

section \<open>Codeword selection in unweighted mode\<close>

text \<open>
  C4. In unweighted mode, on a well-formed module and batch, the forward pass returns what
  the specification describes: as many relaxed-categorical samples of the selected logits as
  \<^verbatim>\<open>iteration\<close> says (10 when left out), each with noise of its own, are averaged; the hard
  index of each token and codebook is the arg-max of the average, an index among the
  codewords that no entry of the average exceeds; and the tensor returned holds, for each
  token, the sum over the codebooks of the codeword at that index. The source adds the
  samples up instead of averaging them, which gives the same arg-max.
\<close>

theorem unweighted_forward_selects_codewords:
  assumes wf: "well_formed self V B K D" and inp: "shape2 N W input" and ids: "token_ids V input"
    and N: "0 < N" and D: "0 < D" and B: "0 < B" and K: "0 < K"
    and uw: "\<not> weighted self"
    and it: "0 < (case iteration of None \<Rightarrow> 10 | Some i \<Rightarrow> i)"
  shows "fst (CompositionalEmbedding_forward self input iteration g) =
           Inr (unweighted_spec self input W
                  (nat (case iteration of None \<Rightarrow> 10 | Some i \<Rightarrow> i)) g) \<and>
         shape3 N W D (unweighted_spec self input W
                  (nat (case iteration of None \<Rightarrow> 10 | Some i \<Rightarrow> i)) g) \<and>
         (\<forall>t<N * W. \<forall>b<B.
            length (averaged_sample g (map (\<lambda>i. code self ! nat i) (concat input))
                      (nat (case iteration of None \<Rightarrow> 10 | Some i \<Rightarrow> i)) t b) = K \<and>
            first_maximum
              (averaged_sample g (map (\<lambda>i. code self ! nat i) (concat input))
                 (nat (case iteration of None \<Rightarrow> 10 | Some i \<Rightarrow> i)) t b)
              (hard_index_spec g (map (\<lambda>i. code self ! nat i) (concat input))
                 (nat (case iteration of None \<Rightarrow> 10 | Some i \<Rightarrow> i)) t b)) \<and>
         CompositionalEmbedding_forward self input None g =
           CompositionalEmbedding_forward self input (Some 10) g"
proof -
  let ?n = "nat (case iteration of None \<Rightarrow> 10 | Some i \<Rightarrow> i)"
  let ?c = "map (\<lambda>i. code self ! nat i) (concat input)"
  have n: "0 < ?n" using it by simp
  have code: "shape3 V B K (code self)" and d: "nat (embedding_dim self) = D"
    and nb: "nat (num_codebook self) = B"
    using wf by (simp_all add: well_formed_def)
  have sel: "index_select (code self) (concat input) = Inr ?c"
    using ids shape3_length [OF code] by (rule index_select_tokens(1))
  have csh: "shape3 (N * W) B K ?c" using ids code inp by (rule selected_shape)
  let ?hard = "map (\<lambda>t. map (\<lambda>b. hard_index_spec g ?c ?n t b) [0..<B]) [0..<N * W]"
  have hv: "select_codewords (fst (gumbel_samples ?n ?c g)) = Inr ?hard"
    using csh n K by (rule select_codewords_value)
  obtain c hard where c: "index_select (code self) (concat input) = Inr c"
    and h: "select_codewords (fst (gumbel_samples ?n c g)) = Inr hard"
    and f: "fst (CompositionalEmbedding_forward self input iteration g) =
              Inr (map (\<lambda>n. map (\<lambda>w. map (\<lambda>d.
                     sum_list (map (\<lambda>b. codebook self ! b ! (hard ! (n * W + w) ! b) ! d) [0..<B]))
                   [0..<D]) [0..<W]) [0..<N])"
    using unweighted_forward_value [OF assms, of g] by blast
  have "c = ?c" using c sel by simp
  then have hard: "hard = ?hard" using h hv by simp
  have idx: "?hard ! (i * W + w) ! b = hard_index_spec g ?c ?n (i * W + w) b"
    if "i < N" "w < W" "b < B" for i w b
    using index_bound [OF that(1,2)] that(3) by simp
  have inner: "map (\<lambda>b. codebook self ! b ! (?hard ! (i * W + w) ! b) ! d) [0..<B] =
               map (\<lambda>b. codebook self ! b ! hard_index_spec g ?c ?n (i * W + w) b ! d) [0..<B]"
    if "i < N" "w < W" for i w d
    by (rule map_cong [OF refl]) (use idx [OF that] in simp)
  have eq: "map (\<lambda>n. map (\<lambda>w. map (\<lambda>d.
           sum_list (map (\<lambda>b. codebook self ! b ! (?hard ! (n * W + w) ! b) ! d) [0..<B]))
         [0..<D]) [0..<W]) [0..<N] =
        map (\<lambda>i. map (\<lambda>w. map (\<lambda>d.
           sum_list (map (\<lambda>b. codebook self ! b ! hard_index_spec g ?c ?n (i * W + w) b ! d) [0..<B]))
         [0..<D]) [0..<W]) [0..<N]"
  proof (rule map_cong [OF refl], rule map_cong [OF refl], rule map_cong [OF refl])
    fix i w d assume "i \<in> set [0..<N]" "w \<in> set [0..<W]" "d \<in> set [0..<D]"
    then have "i < N" "w < W" by simp_all
    then show "sum_list (map (\<lambda>b. codebook self ! b ! (?hard ! (i * W + w) ! b) ! d) [0..<B]) =
      sum_list (map (\<lambda>b. codebook self ! b ! hard_index_spec g ?c ?n (i * W + w) b ! d) [0..<B])"
      by (simp only: inner)
  qed
  have spec: "unweighted_spec self input W ?n g =
        map (\<lambda>i. map (\<lambda>w. map (\<lambda>d.
           sum_list (map (\<lambda>b. codebook self ! b ! hard_index_spec g ?c ?n (i * W + w) b ! d) [0..<B]))
         [0..<D]) [0..<W]) [0..<N]"
    unfolding unweighted_spec_def Let_def d nb shape2_length [OF inp] by (rule refl)
  have "map (\<lambda>n. map (\<lambda>w. map (\<lambda>d.
           sum_list (map (\<lambda>b. codebook self ! b ! (?hard ! (n * W + w) ! b) ! d) [0..<B]))
         [0..<D]) [0..<W]) [0..<N] = unweighted_spec self input W ?n g"
    using eq spec by simp
  then have 1: "fst (CompositionalEmbedding_forward self input iteration g) =
                  Inr (unweighted_spec self input W ?n g)"
    using f hard by simp
  have "shape3 (length input) W (nat (embedding_dim self)) (unweighted_spec self input W ?n g)"
    unfolding unweighted_spec_def Let_def by (rule spec_tensor_shape)
  then have 2: "shape3 N W D (unweighted_spec self input W ?n g)"
    using d shape2_length [OF inp] by simp
  have 3: "\<forall>t<N * W. \<forall>b<B.
            length (averaged_sample g ?c ?n t b) = K \<and>
            first_maximum (averaged_sample g ?c ?n t b) (hard_index_spec g ?c ?n t b)"
    using argmax_of_summed_samples(2,3) [OF csh _ _ n K] by blast
  have 4: "CompositionalEmbedding_forward self input None g =
             CompositionalEmbedding_forward self input (Some 10) g"
    unfolding CompositionalEmbedding_forward_def option.case by (rule refl)
  from 1 2 3 4 show ?thesis by (intro conjI)
qed

theorem unweighted_forward_selects_codewords_witness:
  "well_formed two_books_hard 1 2 3 1 \<and> shape2 1 1 [[0::int]] \<and> token_ids 1 [[0]] \<and>
   \<not> weighted two_books_hard \<and>
   fst (CompositionalEmbedding_forward two_books_hard [[0]] None zero_rng) =
     Inr (unweighted_spec two_books_hard [[0]] 1 10 zero_rng) \<and>
   shape3 1 1 1 (unweighted_spec two_books_hard [[0]] 1 10 zero_rng) \<and>
   length (averaged_sample zero_rng (map (\<lambda>i. code two_books_hard ! nat i) (concat [[0]]))
             10 0 1) = 3 \<and>
   first_maximum
     (averaged_sample zero_rng (map (\<lambda>i. code two_books_hard ! nat i) (concat [[0]])) 10 0 1)
     (hard_index_spec zero_rng (map (\<lambda>i. code two_books_hard ! nat i) (concat [[0]])) 10 0 1)"
proof -
  have one: "(0::nat) < 1" and two: "(0::nat) < 2" and three: "(0::nat) < 3" by simp_all
  have it: "(0::int) < (case None of None \<Rightarrow> 10 | Some i \<Rightarrow> i)" by simp
  have n: "nat (case None of None \<Rightarrow> 10 | Some i \<Rightarrow> i) = 10" by simp
  note t = unweighted_forward_selects_codewords
      [OF two_books_well_formed(2) single_token_batch one one two three
          two_books_well_formed(4) it, of zero_rng, unfolded n]
  have tb: "(0::nat) < 1 * 1" "(1::nat) < 2" by simp_all
  from t have
    "\<forall>t<1 * 1. \<forall>b<2.
      length (averaged_sample zero_rng (map (\<lambda>i. code two_books_hard ! nat i) (concat [[0]]))
                10 t b) = 3 \<and>
      first_maximum
        (averaged_sample zero_rng (map (\<lambda>i. code two_books_hard ! nat i) (concat [[0]])) 10 t b)
        (hard_index_spec zero_rng (map (\<lambda>i. code two_books_hard ! nat i) (concat [[0]])) 10 t b)"
    by (elim conjE)
  then have idx:
    "length (averaged_sample zero_rng (map (\<lambda>i. code two_books_hard ! nat i) (concat [[0]]))
                10 0 1) = 3 \<and>
      first_maximum
        (averaged_sample zero_rng (map (\<lambda>i. code two_books_hard ! nat i) (concat [[0]])) 10 0 1)
        (hard_index_spec zero_rng (map (\<lambda>i. code two_books_hard ! nat i) (concat [[0]])) 10 0 1)"
    using tb by blast
  show ?thesis
    using t idx two_books_well_formed(2,4) single_token_batch by (intro conjI) blast+
qed

end
